theory Spec2Isabelle
  imports Main "HOL-Library.Sublist"
begin

section \<open>The couchapp scaffold generator (\<^verbatim>\<open>couchapp/generator.py\<close>)\<close>

text \<open>
  The module is Python 2 code (\<^verbatim>\<open>from __future__ import with_statement\<close>, a \<^verbatim>\<open>str\<close>
  written to a file opened with \<^verbatim>\<open>'wb'\<close>). Strings are \<^typ>\<open>string\<close>, a Python value that
  may be \<^verbatim>\<open>None\<close> is a \<^typ>\<open>string option\<close>, every exception is a value of \<open>error\<close>, and every
  function takes the world (file system and log) and returns its outcome with the world it
  leaves behind, so that the state after a failure can be read off. Messages are written
  without the quotation marks the module puts around the names in them.
\<close>

subsection \<open>Strings and \<^verbatim>\<open>posixpath\<close>\<close>

text \<open>\<^verbatim>\<open>s.split(c)\<close> for a one-character separator.\<close>

fun split_on :: "char \<Rightarrow> string \<Rightarrow> string list" where
  "split_on c [] = [[]]"
| "split_on c (x # xs) =
     (if x = c then [] # split_on c xs
      else (case split_on c xs of [] \<Rightarrow> [[x]] | w # ws \<Rightarrow> (x # w) # ws))"

text \<open>\<^verbatim>\<open>'/'.join(comps)\<close>.\<close>

fun slash_join :: "string list \<Rightarrow> string" where
  "slash_join [] = []"
| "slash_join [c] = c"
| "slash_join (c # d # cs) = c @ ''/'' @ slash_join (d # cs)"

text \<open>\<^verbatim>\<open>s.rstrip('/')\<close>.\<close>

definition rstrip_slash :: "string \<Rightarrow> string" where
  "rstrip_slash s = rev (dropWhile (\<lambda>c. c = CHR ''/'') (rev s))"

text \<open>One step of \<^verbatim>\<open>posixpath.join\<close>: an absolute component restarts the path.\<close>

definition join2 :: "string \<Rightarrow> string \<Rightarrow> string" where
  "join2 path b =
     (if take 1 b = ''/'' then b
      else if path = [] \<or> last path = CHR ''/'' then path @ b
      else path @ ''/'' @ b)"

definition os_path_join :: "string \<Rightarrow> string list \<Rightarrow> string" where
  "os_path_join a ps = foldl join2 a ps"

text \<open>\<^verbatim>\<open>posixpath.split\<close>: the head up to the last slash, and the tail after it.\<close>

definition os_path_split :: "string \<Rightarrow> string \<times> string" where
  "os_path_split p =
     (let tail = rev (takeWhile (\<lambda>c. c \<noteq> CHR ''/'') (rev p));
          head = rev (dropWhile (\<lambda>c. c \<noteq> CHR ''/'') (rev p))
      in (if head \<noteq> [] \<and> \<not> list_all (\<lambda>c. c = CHR ''/'') head then rstrip_slash head else head,
          tail))"

definition os_path_dirname :: "string \<Rightarrow> string" where
  "os_path_dirname p = fst (os_path_split p)"

definition os_path_basename :: "string \<Rightarrow> string" where
  "os_path_basename p = snd (os_path_split p)"

text \<open>\<^verbatim>\<open>posixpath.normpath\<close>: the loop body over the components, then the whole.\<close>

definition norm_step :: "nat \<Rightarrow> string list \<Rightarrow> string \<Rightarrow> string list" where
  "norm_step initial_slashes new_comps c =
     (if c = [] \<or> c = ''.'' then new_comps
      else if c \<noteq> ''..'' \<or> (initial_slashes = 0 \<and> new_comps = [])
              \<or> (new_comps \<noteq> [] \<and> last new_comps = ''..'')
           then new_comps @ [c]
      else if new_comps \<noteq> [] then butlast new_comps
      else new_comps)"

definition normpath :: "string \<Rightarrow> string" where
  "normpath path =
     (if path = [] then ''.''
      else
        let initial_slashes =
              (if take 1 path = ''/''
               then (if take 2 path = ''//'' \<and> take 3 path \<noteq> ''///'' then 2 else 1)
               else (0::nat));
            comps = foldl (norm_step initial_slashes) [] (split_on CHR ''/'' path);
            p = replicate initial_slashes CHR ''/'' @ slash_join comps
        in if p = [] then ''.'' else p)"

subsection \<open>The file system\<close>

text \<open>
  A file carries its content and its metadata (the time stamps and permission bits that
  \<^verbatim>\<open>copy2\<close> carries over), abstracted to one number; whether the process may open an
  existing file of some metadata for writing is for the platform to say (\<open>may_write\<close>).
  Reading a file and creating an entry in a directory are always permitted. The file
  system is a list of entries keyed by the resolved path, a list of names from the root;
  an earlier entry shadows a later one with the same key, so writing is consing. The
  program never deletes. There are no symbolic links, and \<^verbatim>\<open>..\<close> and a trailing slash are
  resolved lexically.
\<close>

datatype node = File (content: string) (meta: nat) | Dir

type_synonym filesystem = "(string list \<times> node) list"

datatype error =
    AppError string
  | OSError string
  | IOError string
  | ShutilError string
  | TypeError string
  | NameError string
  | AttributeError string

record world =
  fs :: filesystem
  log :: "(string \<times> string) list"

text \<open>
  What the module reads from its platform: the working directory, the clock that stamps a
  newly written file, the metadata that leave an existing file open to writing by this
  process (its permission bits against the user of the process), and the values of
  \<^verbatim>\<open>user_path()\<close>, \<^verbatim>\<open>__file__\<close>, \<^verbatim>\<open>os.name\<close>, \<^verbatim>\<open>is_py2exe()\<close>, \<^verbatim>\<open>is_windows()\<close>,
  \<^verbatim>\<open>sys.executable\<close>, \<^verbatim>\<open>sys.prefix\<close>, \<^verbatim>\<open>sys.platform\<close> and \<^verbatim>\<open>$HOME\<close>. \<open>document\<close> is
  \<^verbatim>\<open>localdoc.document(path, create=True)\<close>, the manifest-document collaborator, which is not
  part of this module: it is a parameter. \<^verbatim>\<open>os.path\<close> is \<^verbatim>\<open>posixpath\<close> throughout.
\<close>

record platform =
  cwd :: "string list"
  clock :: nat
  may_write :: "nat \<Rightarrow> bool"
  user_path :: "string list"
  module_file :: string
  os_name :: string
  is_py2exe :: bool
  is_windows :: bool
  sys_executable :: string
  sys_prefix :: string
  sys_platform :: string
  home :: string
  document :: "string \<Rightarrow> filesystem \<Rightarrow> (error + unit) \<times> filesystem"

definition walk_step :: "string list \<Rightarrow> string \<Rightarrow> string list" where
  "walk_step q c =
     (if c = [] \<or> c = ''.'' then q else if c = ''..'' then butlast q else q @ [c])"

text \<open>The empty path names nothing (\<^verbatim>\<open>ENOENT\<close>).\<close>

definition resolve :: "platform \<Rightarrow> string \<Rightarrow> string list option" where
  "resolve env p =
     (if p = [] then None
      else Some (foldl walk_step (if take 1 p = ''/'' then [] else cwd env)
                   (split_on CHR ''/'' p)))"

definition node_at :: "filesystem \<Rightarrow> string list \<Rightarrow> node option" where
  "node_at f q = (if q = [] then Some Dir else map_of f q)"

definition lookup :: "platform \<Rightarrow> filesystem \<Rightarrow> string \<Rightarrow> node option" where
  "lookup env f p = (case resolve env p of None \<Rightarrow> None | Some q \<Rightarrow> node_at f q)"

definition os_path_isdir :: "platform \<Rightarrow> string \<Rightarrow> filesystem \<Rightarrow> bool" where
  "os_path_isdir env p f = (lookup env f p = Some Dir)"

definition os_path_exists :: "platform \<Rightarrow> string \<Rightarrow> filesystem \<Rightarrow> bool" where
  "os_path_exists env p f = (lookup env f p \<noteq> None)"

definition children :: "filesystem \<Rightarrow> string list \<Rightarrow> string list" where
  "children f q = remdups (map (last \<circ> fst) (filter (\<lambda>(k, n). k \<noteq> [] \<and> butlast k = q) f))"

text \<open>
  The invariant of a file system: every name is a proper name (not empty, not \<^verbatim>\<open>.\<close> or
  \<^verbatim>\<open>..\<close>, without a slash), and every entry lies in a directory.
\<close>

definition plain :: "string \<Rightarrow> bool" where
  "plain n = (n \<noteq> [] \<and> n \<noteq> ''.'' \<and> n \<noteq> ''..'' \<and> CHR ''/'' \<notin> set n)"

definition wf_fs :: "filesystem \<Rightarrow> bool" where
  "wf_fs f = list_all (\<lambda>(k, n). k \<noteq> [] \<and> list_all plain k \<and> node_at f (butlast k) = Some Dir) f"

definition os_listdir :: "platform \<Rightarrow> string \<Rightarrow> filesystem \<Rightarrow> error + string list" where
  "os_listdir env p f =
     (case resolve env p of
        None \<Rightarrow> Inl (OSError ''ENOENT'')
      | Some q \<Rightarrow>
          (case node_at f q of
             None \<Rightarrow> Inl (OSError ''ENOENT'')
           | Some (File c m) \<Rightarrow> Inl (OSError ''ENOTDIR'')
           | Some Dir \<Rightarrow> Inr (children f q)))"

definition os_mkdir :: "platform \<Rightarrow> string \<Rightarrow> filesystem \<Rightarrow> error + filesystem" where
  "os_mkdir env p f =
     (case resolve env p of
        None \<Rightarrow> Inl (OSError ''ENOENT'')
      | Some q \<Rightarrow>
          if node_at f q \<noteq> None then Inl (OSError ''EEXIST'')
          else (case node_at f (butlast q) of
                  None \<Rightarrow> Inl (OSError ''ENOENT'')
                | Some (File c m) \<Rightarrow> Inl (OSError ''ENOTDIR'')
                | Some Dir \<Rightarrow> Inr ((q, Dir) # f)))"

definition is_file :: "node option \<Rightarrow> bool" where
  "is_file n = (case n of Some (File c m) \<Rightarrow> True | _ \<Rightarrow> False)"

text \<open>\<^verbatim>\<open>os.makedirs\<close>: the leaf must be new; every missing ancestor is created with it.\<close>

definition os_makedirs :: "platform \<Rightarrow> string \<Rightarrow> filesystem \<Rightarrow> error + filesystem" where
  "os_makedirs env p f =
     (case resolve env p of
        None \<Rightarrow> Inl (OSError ''ENOENT'')
      | Some q \<Rightarrow>
          if node_at f q \<noteq> None then Inl (OSError ''EEXIST'')
          else if list_ex (\<lambda>k. is_file (node_at f k)) (prefixes q) then Inl (OSError ''ENOTDIR'')
          else Inr (map (\<lambda>k. (k, Dir)) (filter (\<lambda>k. node_at f k = None) (prefixes q)) @ f))"

text \<open>An existing file that the process may not open for writing.\<close>

definition write_protected :: "platform \<Rightarrow> node option \<Rightarrow> bool" where
  "write_protected env n = (case n of Some (File c m) \<Rightarrow> \<not> may_write env m | _ \<Rightarrow> False)"

text \<open>
  \<^verbatim>\<open>open(p, 'wb').write(s)\<close>: creates a file in an existing directory, or truncates one that
  the process may write (\<^verbatim>\<open>EACCES\<close> otherwise); \<open>m\<close> is the metadata the file ends with.
\<close>

definition write_file :: "platform \<Rightarrow> string \<Rightarrow> string \<Rightarrow> nat \<Rightarrow> filesystem \<Rightarrow> error + filesystem" where
  "write_file env p s m f =
     (case resolve env p of
        None \<Rightarrow> Inl (IOError ''ENOENT'')
      | Some q \<Rightarrow>
          if node_at f q = Some Dir then Inl (IOError ''EISDIR'')
          else if write_protected env (node_at f q) then Inl (IOError ''EACCES'')
          else (case node_at f (butlast q) of
                  None \<Rightarrow> Inl (IOError ''ENOENT'')
                | Some (File c m') \<Rightarrow> Inl (IOError ''ENOTDIR'')
                | Some Dir \<Rightarrow> Inr ((q, File s m) # f)))"

text \<open>
  \<^verbatim>\<open>shutil.copy2(src, dst)\<close>: into \<^verbatim>\<open>dst\<close> when that is a directory, refusing to copy a file
  onto itself; the target is opened for writing, which an existing copy that is
  write-protected refuses, and ends with the content and the metadata of the source.
\<close>

definition copy2 :: "platform \<Rightarrow> string \<Rightarrow> string \<Rightarrow> filesystem \<Rightarrow> error + filesystem" where
  "copy2 env src dst f =
     (let dst' = (if os_path_isdir env dst f then os_path_join dst [os_path_basename src] else dst)
      in case lookup env f src of
           None \<Rightarrow> Inl (IOError ''ENOENT'')
         | Some Dir \<Rightarrow> Inl (IOError ''EISDIR'')
         | Some (File c m) \<Rightarrow>
             if resolve env src = resolve env dst' then Inl (ShutilError ''same file'')
             else write_file env dst' c m f)"

text \<open>
  \<^verbatim>\<open>shutil.copytree(src, dst)\<close>: \<^verbatim>\<open>dst\<close> is made with \<^verbatim>\<open>os.makedirs\<close>, so it must not exist;
  then the whole subtree below \<^verbatim>\<open>src\<close> is copied below it. The copy is taken from the tree
  as it is when the call starts.
\<close>

definition copytree :: "platform \<Rightarrow> string \<Rightarrow> string \<Rightarrow> filesystem \<Rightarrow> error + filesystem" where
  "copytree env src dst f =
     (case os_listdir env src f of
        Inl e \<Rightarrow> Inl e
      | Inr names \<Rightarrow>
          (case os_makedirs env dst f of
             Inl e \<Rightarrow> Inl e
           | Inr f1 \<Rightarrow>
               (case (resolve env src, resolve env dst) of
                  (Some s, Some d) \<Rightarrow>
                    Inr (map (\<lambda>(k, n). (d @ drop (length s) k, n))
                           (filter (\<lambda>(k, n). strict_prefix s k) f) @ f1)
                | _ \<Rightarrow> Inl (OSError ''ENOENT''))))"

definition logger :: "string \<Rightarrow> string \<Rightarrow> world \<Rightarrow> world" where
  "logger level msg w = w\<lparr>log := log w @ [(level, msg)]\<rparr>"

subsection \<open>Path utilities of \<^verbatim>\<open>couchapp.util\<close>\<close>

text \<open>
  Modelled from the spec: \<^verbatim>\<open>couchapp.util.setup_dir\<close> (the spec's \<^verbatim>\<open>ensure_dir\<close>) is not in
  this module. The spec: the directory is created if absent; if present it is used as it
  is, unless emptiness is required and it is occupied; a path that is there but is no
  directory is a directory-state error.
\<close>

definition setup_dir :: "platform \<Rightarrow> string \<Rightarrow> bool \<Rightarrow> world \<Rightarrow> (error + unit) \<times> world" where
  "setup_dir env path require_empty w =
     (if os_path_isdir env path (fs w) then
        (if \<not> require_empty then (Inr (), w)
         else (case os_listdir env path (fs w) of
                 Inr [] \<Rightarrow> (Inr (), w)
               | _ \<Rightarrow> (Inl (AppError (''dir '' @ path @ '' is not empty'')), w)))
      else if os_path_exists env path (fs w) then (Inl (AppError (path @ '': File exists'')), w)
      else (case os_mkdir env path (fs w) of
              Inl e \<Rightarrow> (Inl e, w)
            | Inr f \<Rightarrow> (Inr (), w\<lparr>fs := f\<rparr>)))"

text \<open>
  Modelled from the spec: \<^verbatim>\<open>couchapp.util.setup_dirs\<close> (the spec's \<^verbatim>\<open>ensure_dirs\<close>) applies
  \<^verbatim>\<open>setup_dir\<close> to each path in turn and stops at the first failure.
\<close>

fun setup_dirs :: "platform \<Rightarrow> string list \<Rightarrow> bool \<Rightarrow> world \<Rightarrow> (error + unit) \<times> world" where
  "setup_dirs env [] require_empty w = (Inr (), w)"
| "setup_dirs env (p # ps) require_empty w =
     (case setup_dir env p require_empty w of
        (Inl e, w') \<Rightarrow> (Inl e, w')
      | (Inr u, w') \<Rightarrow> setup_dirs env ps require_empty w')"

subsection \<open>The module\<close>

definition DEFAULT_APP_TREE :: "string list" where
  "DEFAULT_APP_TREE = [''_attachments'', ''filters'', ''lists'', ''shows'', ''updates'', ''views'']"

definition TEMPLATE_TYPES :: "string list" where
  "TEMPLATE_TYPES = [''app'', ''functions'', ''vendor'']"

text \<open>
  The names the module binds in its namespace: the imports of lines 6 to 17, the
  assignments and the \<^verbatim>\<open>def\<close>s. Reading a global name that is neither bound nor a
  builtin raises \<^verbatim>\<open>NameError\<close>; \<^verbatim>\<open>shutil\<close> and \<^verbatim>\<open>generate_vendor\<close> are neither here.
\<close>

definition module_globals :: "string list" where
  "module_globals =
     [''with_statement'', ''logging'', ''os'', ''sys'', ''copy2'', ''copytree'', ''localdoc'',
      ''AppError'', ''is_py2exe'', ''is_windows'', ''relpath'', ''setup_dir'', ''user_path'',
      ''setup_dirs'', ''__all__'', ''logger'', ''DEFAULT_APP_TREE'', ''TEMPLATE_TYPES'',
      ''init_basic'', ''init_template'', ''generate_function'', ''copy_helper'',
      ''find_template_dir'', ''generate'', ''save_id'']"

text \<open>
  The namespace of a module is run-time state. The functions that read a global name the
  module does not bind take the namespace they run in: the list of the names bound in it,
  each to what its import would bind it to. For the module as its own statements leave it,
  that is \<open>module_globals\<close>.
\<close>

text \<open>\<^verbatim>\<open>os.path.expanduser\<close> of a path that starts with \<^verbatim>\<open>~/\<close>.\<close>

definition expanduser :: "platform \<Rightarrow> string \<Rightarrow> string" where
  "expanduser env p =
     (if take 1 p = ''~''
      then (let r = rstrip_slash (home env) @ drop 1 p in if r = [] then ''/'' else r)
      else p)"

text \<open>Lines 258 to 281 of \<^verbatim>\<open>find_template_dir\<close>: the roots, in the order they are probed.\<close>

definition search_paths :: "platform \<Rightarrow> string list" where
  "search_paths env =
     (let modpath = os_path_dirname (module_file env) in
      user_path env @ [modpath, os_path_join modpath [''..'']]
      @ (if os_name env = ''posix''
         then [''/usr/share/couchapp'', ''/usr/local/share/couchapp'', ''/opt/couchapp'']
         else if is_py2exe env then [os_path_dirname (sys_executable env)]
         else if is_windows env
         then [os_path_join (sys_prefix env) [''Lib'', ''site-packages'', ''couchapp'']]
         else [])
      @ (if take 6 (sys_platform env) = ''darwin''
         then [expanduser env ''~/Library/Application Support/Couchapp'']
         else []))"

text \<open>Lines 285 and 286: the path probed for one root.\<close>

definition probe_path :: "string \<Rightarrow> string \<Rightarrow> string \<Rightarrow> string" where
  "probe_path root tmpl_name tmpl_type =
     os_path_join (normpath root) [''templates'', tmpl_name, tmpl_type]"

text \<open>The loop of lines 284 to 291; every probe leaves a debug record.\<close>

fun probe_roots :: "platform \<Rightarrow> string \<Rightarrow> string \<Rightarrow> string list \<Rightarrow> world \<Rightarrow> string option \<times> world" where
  "probe_roots env tmpl_name tmpl_type [] w = (None, w)"
| "probe_roots env tmpl_name tmpl_type (root # rest) w =
     (let path = probe_path root tmpl_name tmpl_type in
      if os_path_isdir env path (fs w)
      then (Some path, logger ''debug'' (''template path match: '' @ path) w)
      else probe_roots env tmpl_name tmpl_type rest
             (logger ''debug'' (''template search path: '' @ path @ '' not found'') w))"

text \<open>Lines 255 and 256: the name \<^verbatim>\<open>default\<close> stands for the empty name.\<close>

definition normal_name :: "string \<Rightarrow> string" where
  "normal_name tmpl_name = (if tmpl_name = ''default'' then [] else tmpl_name)"

definition find_template_dir ::
  "platform \<Rightarrow> string \<Rightarrow> string \<Rightarrow> bool \<Rightarrow> world \<Rightarrow> (error + string option) \<times> world" where
  "find_template_dir env tmpl_name tmpl_type raise_error w =
     (if tmpl_type \<noteq> [] \<and> tmpl_type \<notin> set TEMPLATE_TYPES
      then (Inl (AppError (''invalid template type '' @ tmpl_type)), w)
      else
        let tmpl_name' = normal_name tmpl_name in
        case probe_roots env tmpl_name' tmpl_type (search_paths env) w of
          (Some path, w') \<Rightarrow> (Inr (Some path), w')
        | (None, w') \<Rightarrow>
            if raise_error
            then (Inl (AppError (''template '' @ tmpl_name' @ ''/'' @ tmpl_type @ '' not found.'')),
                  logger ''info'' ''please use -d to checkout search paths.'' w')
            else (Inr None, w'))"


text \<open>\<^verbatim>\<open>save_id\<close>, lines 317 to 326.\<close>

definition save_id :: "platform \<Rightarrow> string \<Rightarrow> string \<Rightarrow> world \<Rightarrow> (error + unit) \<times> world" where
  "save_id env app_path name w =
     (case write_file env (os_path_join app_path [''_id'']) name (clock env) (fs w) of
        Inl e \<Rightarrow> (Inl e, w)
      | Inr f \<Rightarrow> (Inr (), w\<lparr>fs := f\<rparr>))"

text \<open>
  The call of the collaborator, \<^verbatim>\<open>localdoc.document(path, create=True)\<close>; the object it
  returns is dropped by both callers.
\<close>

definition localdoc_document :: "platform \<Rightarrow> string \<Rightarrow> world \<Rightarrow> (error + unit) \<times> world" where
  "localdoc_document env path w =
     (case document env path (fs w) of (r, f) \<Rightarrow> (r, w\<lparr>fs := f\<rparr>))"

text \<open>
  \<^verbatim>\<open>init_basic\<close>, lines 54 to 58. \<^verbatim>\<open>setup_dirs\<close> is called without \<^verbatim>\<open>require_empty\<close>, which
  is then the default of \<^verbatim>\<open>setup_dir\<close>, true.
\<close>

definition init_basic :: "platform \<Rightarrow> string \<Rightarrow> world \<Rightarrow> (error + unit) \<times> world" where
  "init_basic env path w =
     (case setup_dir env path True w of
        (Inl e, w1) \<Rightarrow> (Inl e, w1)
      | (Inr u, w1) \<Rightarrow>
     (case setup_dirs env (map (\<lambda>n. os_path_join path [n]) DEFAULT_APP_TREE) True w1 of
        (Inl e, w2) \<Rightarrow> (Inl e, w2)
      | (Inr u, w2) \<Rightarrow>
     (case save_id env path (''_design/'' @ snd (os_path_split path)) w2 of
        (Inl e, w3) \<Rightarrow> (Inl e, w3)
      | (Inr u, w3) \<Rightarrow> localdoc_document env path w3)))"

text \<open>The body of the loop of \<^verbatim>\<open>copy_helper\<close>, lines 202 to 208, for the entry \<^verbatim>\<open>p\<close>.\<close>

definition copy_entry :: "platform \<Rightarrow> string \<Rightarrow> string \<Rightarrow> string \<Rightarrow> filesystem \<Rightarrow> error + filesystem" where
  "copy_entry env src dest p f =
     (let src' = os_path_join src [p];
          dest' = os_path_join dest [p]
      in if os_path_isdir env src' f then copytree env src' dest' f
         else copy2 env src' dest' f)"

text \<open>The loop of \<^verbatim>\<open>copy_helper\<close>, line 201: the first failure ends it.\<close>

fun copy_entries :: "platform \<Rightarrow> string \<Rightarrow> string \<Rightarrow> string list \<Rightarrow> world \<Rightarrow> (error + unit) \<times> world" where
  "copy_entries env src dest [] w = (Inr (), w)"
| "copy_entries env src dest (p # ps) w =
     (case copy_entry env src dest p (fs w) of
        Inl e \<Rightarrow> (Inl e, w)
      | Inr f \<Rightarrow> copy_entries env src dest ps (w\<lparr>fs := f\<rparr>))"

text \<open>
  \<^verbatim>\<open>copy_helper\<close>, lines 196 to 208. The source may be \<^verbatim>\<open>None\<close> (\<^verbatim>\<open>init_template\<close> passes
  what \<^verbatim>\<open>find_template_dir\<close> returned); \<^verbatim>\<open>os.path.isdir(None)\<close> raises \<^verbatim>\<open>TypeError\<close>.
\<close>

definition copy_helper :: "platform \<Rightarrow> string option \<Rightarrow> string \<Rightarrow> world \<Rightarrow> (error + unit) \<times> world" where
  "copy_helper env src dest w =
     (case src of
        None \<Rightarrow> (Inl (TypeError ''coercing to Unicode: need string or buffer, NoneType found''), w)
      | Some s \<Rightarrow>
          if \<not> os_path_isdir env s (fs w)
          then (Inl (OSError (''source '' @ s @ '' is not a directory'')), w)
          else (case setup_dir env dest False w of
                  (Inl e, w1) \<Rightarrow> (Inl e, w1)
                | (Inr u, w1) \<Rightarrow>
                    (case os_listdir env s (fs w1) of
                       Inl e \<Rightarrow> (Inl e, w1)
                     | Inr names \<Rightarrow> copy_entries env s dest names w1)))"

text \<open>Python truthiness of a value that is \<^verbatim>\<open>None\<close> or a string.\<close>

definition truthy :: "string option \<Rightarrow> bool" where
  "truthy v = (case v of None \<Rightarrow> False | Some s \<Rightarrow> s \<noteq> [])"

text \<open>Line 102: \<^verbatim>\<open>os.path.normpath(template) if template else ''\<close>.\<close>

definition tmpl_name_of :: "string option \<Rightarrow> string" where
  "tmpl_name_of template =
     (case template of None \<Rightarrow> [] | Some t \<Rightarrow> if t \<noteq> [] then normpath t else [])"

text \<open>\<^verbatim>\<open>init_template\<close>, lines 99 to 122.\<close>

definition init_template :: "platform \<Rightarrow> string \<Rightarrow> string option \<Rightarrow> world \<Rightarrow> (error + unit) \<times> world" where
  "init_template env path template w =
     (if template \<in> Some ` set TEMPLATE_TYPES
      then (Inl (AppError ''template name connot be (app, functions, vendor).''), w)
      else
        let tmpl_name = tmpl_name_of template in
     (case find_template_dir env tmpl_name ''app'' True w of
        (Inl e, w1) \<Rightarrow> (Inl e, w1)
      | (Inr src_dir, w1) \<Rightarrow>
     (case copy_helper env src_dir path w1 of
        (Inl e, w2) \<Rightarrow> (Inl e, w2)
      | (Inr u, w2) \<Rightarrow>
     (case setup_dirs env (map (\<lambda>n. os_path_join path [n]) DEFAULT_APP_TREE) False w2 of
        (Inl e, w3) \<Rightarrow> (Inl e, w3)
      | (Inr u, w3) \<Rightarrow>
     (case find_template_dir env tmpl_name ''vendor'' False w3 of
        (Inl e, w4) \<Rightarrow> (Inl e, w4)
      | (Inr src_dir1, w4) \<Rightarrow>
     (case (if src_dir1 = None
            then find_template_dir env ''default'' ''vendor'' False
                   (logger ''debug''
                      (''vendor not found in template set '' @ tmpl_name
                         @ ''. fallback to default vendor.'') w4)
            else (Inr src_dir1, w4)) of
        (Inl e, w5) \<Rightarrow> (Inl e, w5)
      | (Inr src_dir2, w5) \<Rightarrow>
     (case copy_helper env src_dir2 (os_path_join path [''vendor'']) w5 of
        (Inl e, w6) \<Rightarrow> (Inl e, w6)
      | (Inr u, w6) \<Rightarrow>
     (case save_id env path (''_design/'' @ snd (os_path_split path)) w6 of
        (Inl e, w7) \<Rightarrow> (Inl e, w7)
      | (Inr u, w7) \<Rightarrow> localdoc_document env path w7))))))))"

text \<open>\<^verbatim>\<open>os.path.join(*xs)\<close> for a list that is never empty where the module calls it.\<close>

definition join_star :: "string list \<Rightarrow> string" where
  "join_star xs = (case xs of [] \<Rightarrow> [] | a # ps \<Rightarrow> os_path_join a ps)"

text \<open>\<^verbatim>\<open>try: os.makedirs(p)\<close> \<^verbatim>\<open>except: pass\<close>.\<close>

definition try_makedirs :: "platform \<Rightarrow> string \<Rightarrow> world \<Rightarrow> world" where
  "try_makedirs env p w = (case os_makedirs env p (fs w) of Inl e \<Rightarrow> w | Inr f \<Rightarrow> w\<lparr>fs := f\<rparr>)"

text \<open>
  The loop of \<^verbatim>\<open>generate_function\<close>, lines 162 to 170, in the namespace \<open>ns\<close>. The \<^verbatim>\<open>try\<close>
  body reads the global name \<^verbatim>\<open>shutil\<close> before it can call anything; whatever it raises,
  the bare \<^verbatim>\<open>except\<close> turns into a warning, and the loop goes on.
\<close>

fun copy_functions_in ::
  "string list \<Rightarrow> platform \<Rightarrow> string \<Rightarrow> string \<Rightarrow> string list \<Rightarrow> (string \<times> string) list
     \<Rightarrow> world \<Rightarrow> world" where
  "copy_functions_in ns env path template_dir functions_path [] w = w"
| "copy_functions_in ns env path template_dir functions_path ((template, target) # rest) w =
     (let target_path = os_path_join path [target];
          root_path = [template_dir] @ functions_path @ [template];
          root = join_star root_path
      in copy_functions_in ns env path template_dir functions_path rest
           (case (if ''shutil'' \<in> set ns then copy2 env root target_path (fs w)
                  else Inl (NameError ''shutil'')) of
              Inr f \<Rightarrow> w\<lparr>fs := f\<rparr>
            | Inl e \<Rightarrow>
                logger ''warning'' (template @ '' not found in '' @ join_star (butlast root_path)) w))"

text \<open>Lines 157 to 170: the destination directory, best effort, then the loop.\<close>

definition place_functions_in ::
  "string list \<Rightarrow> platform \<Rightarrow> string \<Rightarrow> string \<Rightarrow> string list \<Rightarrow> (string \<times> string) list
     \<Rightarrow> world \<Rightarrow> (error + unit) \<times> world" where
  "place_functions_in ns env path template_dir functions_path functions w =
     (Inr (),
      copy_functions_in ns env path template_dir functions_path functions (try_makedirs env path w))"

text \<open>
  Lines 126 to 132 of \<^verbatim>\<open>generate_function\<close>: with a template the skeletons are looked for
  in the root of that template set, without one in \<^verbatim>\<open>functions\<close> of the default set.
\<close>

definition functions_path_of :: "string option \<Rightarrow> string list" where
  "functions_path_of template = (if truthy template then [] else [''functions''])"

definition lookup_template :: "platform \<Rightarrow> string option \<Rightarrow> world \<Rightarrow> (error + string option) \<times> world" where
  "lookup_template env template w =
     (case template of
        None \<Rightarrow> find_template_dir env ''default'' [] False w
      | Some t \<Rightarrow>
          if t \<noteq> [] then find_template_dir env (join_star (split_on CHR ''/'' t)) [] False w
          else find_template_dir env ''default'' [] False w)"

text \<open>\<^verbatim>\<open>generate_function\<close>, lines 133 to 172, in the namespace \<open>ns\<close>.\<close>

definition generate_function_in ::
  "string list \<Rightarrow> platform \<Rightarrow> string \<Rightarrow> string \<Rightarrow> string \<Rightarrow> string option \<Rightarrow> world
     \<Rightarrow> (error + unit) \<times> world" where
  "generate_function_in ns env path kind name template w =
     (let functions_path = functions_path_of template in
      case lookup_template env template w of
        (Inl e, w1) \<Rightarrow> (Inl e, w1)
      | (Inr None, w1) \<Rightarrow> (Inl (AppError ''Defaults templates not found. Check your install.''), w1)
      | (Inr (Some template_dir), w1) \<Rightarrow>
          if template_dir = []
          then (Inl (AppError ''Defaults templates not found. Check your install.''), w1)
          else if kind = ''view'' then
            (let path' = os_path_join path [kind @ ''s'', name] in
             if os_path_exists env path' (fs w1)
             then (Inl (AppError (''The view '' @ name @ '' already exists'')), w1)
             else place_functions_in ns env path' template_dir functions_path
                    [(''map.js'', ''map.js''), (''reduce.js'', ''reduce.js'')] w1)
          else if kind = ''function'' then
            place_functions_in ns env path template_dir functions_path
              [(name @ ''.js'', name @ ''.js'')] w1
          else if kind = ''vendor'' then
            (let app_dir = os_path_join path [''vendor'', name];
                 w2 = try_makedirs env app_dir w1
             in case template of
                  None \<Rightarrow> (Inl (AttributeError ''NoneType object has no attribute split''), w2)
                | Some t \<Rightarrow> copy_helper env (Some path) (join_star (split_on CHR ''/'' t)) w2)
          else if kind = ''spatial'' then
            place_functions_in ns env (os_path_join path [''spatial'']) template_dir functions_path
              [(''spatial.js'', name @ ''.js'')] w1
          else
            place_functions_in ns env (os_path_join path [kind @ ''s'']) template_dir functions_path
              [(kind @ ''.js'', name @ ''.js'')] w1)"

text \<open>\<^verbatim>\<open>generate_function\<close> as the module runs it: in the namespace of its own statements.\<close>

definition generate_function ::
  "platform \<Rightarrow> string \<Rightarrow> string \<Rightarrow> string \<Rightarrow> string option \<Rightarrow> world \<Rightarrow> (error + unit) \<times> world" where
  "generate_function env path kind name template w =
     generate_function_in module_globals env path kind name template w"

definition func_list :: "string list" where
  "func_list = [''view'', ''list'', ''show'', ''filter'', ''function'', ''vendor'', ''update'',
                ''spatial'']"

text \<open>
  \<^verbatim>\<open>generate\<close>, lines 302 to 314. The module defines no \<^verbatim>\<open>generate_vendor\<close> and imports
  none, so line 313 raises \<^verbatim>\<open>NameError\<close> when it reads the name.
\<close>

definition generate ::
  "platform \<Rightarrow> string \<Rightarrow> string \<Rightarrow> string option \<Rightarrow> string option \<Rightarrow> world \<Rightarrow> (error + unit) \<times> world" where
  "generate env path kind name template w =
     (if kind \<notin> set func_list
      then (Inl (AppError (''Cannot generate '' @ kind @ '' in your couchapp. generator is unknown.'')), w)
      else (case name of
              None \<Rightarrow> (Inl (AppError (''Cannot generate '' @ kind @ '' function, name is missing'')), w)
            | Some n \<Rightarrow>
                if kind = ''vendor'' then (Inl (NameError ''generate_vendor''), w)
                else generate_function env path kind n template w))"


subsection \<open>Reading the result of a copy\<close>

text \<open>
  Where \<^verbatim>\<open>copy2\<close> leaves the entry \<^verbatim>\<open>p\<close> of a source directory: at \<^verbatim>\<open>dest/p\<close>, or inside
  \<^verbatim>\<open>dest/p\<close> under the same name when \<^verbatim>\<open>dest/p\<close> is a directory.
\<close>

definition delivered :: "platform \<Rightarrow> filesystem \<Rightarrow> string \<Rightarrow> string \<Rightarrow> node \<Rightarrow> bool" where
  "delivered env f dest p x =
     (lookup env f (os_path_join dest [p]) = Some x
      \<or> os_path_isdir env (os_path_join dest [p]) f
        \<and> lookup env f (os_path_join dest [p, p]) = Some x)"

section \<open>Scenarios\<close>

text \<open>A macOS installation with templates under three of the roots.\<close>

definition env_mac :: platform where
  "env_mac = \<lparr>cwd = [''Users'', ''u''], clock = 7, may_write = (\<lambda>m. m \<noteq> 292),
     user_path = [''/Users/u/.couchapp''],
     module_file = ''/Library/Python/2.7/site-packages/couchapp/generator.py'',
     os_name = ''posix'', is_py2exe = False, is_windows = False,
     sys_executable = ''/usr/bin/python'', sys_prefix = ''/usr'', sys_platform = ''darwin'',
     home = ''/Users/u'', document = (\<lambda>p f. (Inr (), f))\<rparr>"

definition fs_mac :: filesystem where
  "fs_mac = [([''usr''], Dir), ([''usr'', ''local''], Dir), ([''usr'', ''local'', ''share''], Dir),
     ([''usr'', ''local'', ''share'', ''couchapp''], Dir),
     ([''usr'', ''local'', ''share'', ''couchapp'', ''templates''], Dir),
     ([''usr'', ''local'', ''share'', ''couchapp'', ''templates'', ''app''], Dir),
     ([''opt''], Dir), ([''opt'', ''couchapp''], Dir), ([''opt'', ''couchapp'', ''templates''], Dir),
     ([''opt'', ''couchapp'', ''templates'', ''app''], Dir),
     ([''Users''], Dir), ([''Users'', ''u''], Dir), ([''Users'', ''u'', ''Library''], Dir),
     ([''Users'', ''u'', ''Library'', ''Application Support''], Dir),
     ([''Users'', ''u'', ''Library'', ''Application Support'', ''Couchapp''], Dir),
     ([''Users'', ''u'', ''Library'', ''Application Support'', ''Couchapp'', ''templates''], Dir),
     ([''Users'', ''u'', ''Library'', ''Application Support'', ''Couchapp'', ''templates'', ''app''], Dir)]"


definition w_mac :: world where "w_mac = \<lparr>fs = fs_mac, log = []\<rparr>"


text \<open>
  A Linux installation: the default templates are under \<^verbatim>\<open>/usr/share/couchapp\<close>, the app is
  \<^verbatim>\<open>/home/u/app\<close>, and the collaborator leaves the file system as it is. The process may
  write every file but one of metadata 292 (the mode \<^verbatim>\<open>0444\<close>, read only).
\<close>

definition env_linux :: platform where
  "env_linux = \<lparr>cwd = [''home'', ''u''], clock = 7, may_write = (\<lambda>m. m \<noteq> 292),
     user_path = [''/home/u/.couchapp''],
     module_file = ''/usr/lib/python2.7/site-packages/couchapp/generator.py'',
     os_name = ''posix'', is_py2exe = False, is_windows = False,
     sys_executable = ''/usr/bin/python'', sys_prefix = ''/usr'', sys_platform = ''linux2'',
     home = ''/home/u'', document = (\<lambda>p f. (Inr (), f))\<rparr>"

definition fs_linux :: filesystem where
  "fs_linux =
     [([''home''], Dir), ([''home'', ''u''], Dir), ([''home'', ''u'', ''app''], Dir),
      ([''home'', ''u'', ''app'', ''_id''], File ''_design/app'' 5),
      ([''home'', ''u'', ''app'', ''views''], Dir),
      ([''usr''], Dir), ([''usr'', ''share''], Dir), ([''usr'', ''share'', ''couchapp''], Dir),
      ([''usr'', ''share'', ''couchapp'', ''templates''], Dir),
      ([''usr'', ''share'', ''couchapp'', ''templates'', ''functions''], Dir),
      ([''usr'', ''share'', ''couchapp'', ''templates'', ''functions'', ''map.js''],
         File ''function(doc) {}'' 3),
      ([''usr'', ''share'', ''couchapp'', ''templates'', ''functions'', ''reduce.js''],
         File ''function(keys, values) {}'' 4),
      ([''usr'', ''share'', ''couchapp'', ''templates'', ''functions'', ''foo.js''],
         File ''function() {}'' 6)]"

definition w_linux :: world where "w_linux = \<lparr>fs = fs_linux, log = []\<rparr>"

text \<open>The same without \<^verbatim>\<open>reduce.js\<close> in the functions template.\<close>

definition fs_no_reduce :: filesystem where
  "fs_no_reduce =
     filter (\<lambda>(k, n). k \<noteq> [''usr'', ''share'', ''couchapp'', ''templates'', ''functions'', ''reduce.js''])
       fs_linux"

definition w_no_reduce :: world where "w_no_reduce = \<lparr>fs = fs_no_reduce, log = []\<rparr>"

text \<open>
  The working directory is the user's templates directory, which holds a template set
  \<^verbatim>\<open>jq\<close>, so that the relative path \<^verbatim>\<open>jq\<close> names that directory.
\<close>

definition env_vendor :: platform where
  "env_vendor = env_linux\<lparr>cwd := [''home'', ''u'', ''.couchapp'', ''templates'']\<rparr>"

definition fs_vendor :: filesystem where
  "fs_vendor =
     [([''home''], Dir), ([''home'', ''u''], Dir), ([''home'', ''u'', ''app''], Dir),
      ([''home'', ''u'', ''app'', ''_id''], File ''_design/app'' 5),
      ([''home'', ''u'', ''.couchapp''], Dir),
      ([''home'', ''u'', ''.couchapp'', ''templates''], Dir),
      ([''home'', ''u'', ''.couchapp'', ''templates'', ''jq''], Dir),
      ([''home'', ''u'', ''.couchapp'', ''templates'', ''jq'', ''jquery.js''], File ''jQuery'' 1),
      ([''home'', ''u'', ''.couchapp'', ''templates'', ''jq'', ''plugins''], Dir),
      ([''home'', ''u'', ''.couchapp'', ''templates'', ''jq'', ''plugins'', ''a.js''], File ''plugin'' 2)]"

definition w_vendor :: world where "w_vendor = \<lparr>fs = fs_vendor, log = []\<rparr>"

text \<open>
  A template set \<^verbatim>\<open>mytmpl\<close> with an \<^verbatim>\<open>app\<close> payload, a file and a directory with a file
  in it; no root has a \<^verbatim>\<open>vendor\<close> directory, neither for \<^verbatim>\<open>mytmpl\<close> nor for the default
  set. The three worlds after it are the worlds \<^verbatim>\<open>init_template\<close> goes through before it
  looks for \<^verbatim>\<open>vendor\<close>.
\<close>

definition fs_no_vendor :: filesystem where
  "fs_no_vendor =
     [([''home''], Dir), ([''home'', ''u''], Dir),
      ([''usr''], Dir), ([''usr'', ''share''], Dir), ([''usr'', ''share'', ''couchapp''], Dir),
      ([''usr'', ''share'', ''couchapp'', ''templates''], Dir),
      ([''usr'', ''share'', ''couchapp'', ''templates'', ''mytmpl''], Dir),
      ([''usr'', ''share'', ''couchapp'', ''templates'', ''mytmpl'', ''app''], Dir),
      ([''usr'', ''share'', ''couchapp'', ''templates'', ''mytmpl'', ''app'', ''index.html''],
         File ''<html></html>'' 2),
      ([''usr'', ''share'', ''couchapp'', ''templates'', ''mytmpl'', ''app'', ''lib''], Dir),
      ([''usr'', ''share'', ''couchapp'', ''templates'', ''mytmpl'', ''app'', ''lib'', ''util.js''],
         File ''exports.id = 1'' 2)]"

definition w_no_vendor :: world where "w_no_vendor = \<lparr>fs = fs_no_vendor, log = []\<rparr>"

definition w_no_vendor1 :: world where
  "w_no_vendor1 = snd (find_template_dir env_linux ''mytmpl'' ''app'' True w_no_vendor)"

definition w_no_vendor2 :: world where
  "w_no_vendor2 =
     snd (copy_helper env_linux (Some ''/usr/share/couchapp/templates/mytmpl/app'') ''proj''
            w_no_vendor1)"

definition w_no_vendor3 :: world where
  "w_no_vendor3 =
     snd (setup_dirs env_linux (map (\<lambda>n. os_path_join ''proj'' [n]) DEFAULT_APP_TREE) False
            w_no_vendor2)"

text \<open>
  A collaborator that does what the docstring of \<^verbatim>\<open>init_basic\<close> reports of the generated
  app: it leaves \<^verbatim>\<open>.couchapprc\<close> and \<^verbatim>\<open>.couchappignore\<close> in the app directory.
\<close>

definition rc_document :: "string \<Rightarrow> filesystem \<Rightarrow> (error + unit) \<times> filesystem" where
  "rc_document path f =
     (case write_file env_linux (os_path_join path [''.couchapprc'']) ''{}'' 7 f of
        Inl e \<Rightarrow> (Inl e, f)
      | Inr f1 \<Rightarrow>
          (case write_file env_linux (os_path_join path [''.couchappignore'']) ''[]'' 7 f1 of
             Inl e \<Rightarrow> (Inl e, f1)
           | Inr f2 \<Rightarrow> (Inr (), f2)))"

definition env_rc :: platform where
  "env_rc = env_linux\<lparr>document := rc_document\<rparr>"

text \<open>
  The worlds after a first merge copy into \<^verbatim>\<open>/home/u/dst\<close>: of the functions template, which
  holds three files, and of the templates directory, which holds one directory.
\<close>

definition w_copy1 :: world where
  "w_copy1 = snd (copy_helper env_linux (Some ''/usr/share/couchapp/templates/functions'') ''dst'' w_linux)"

definition w_copy2 :: world where
  "w_copy2 = snd (copy_helper env_linux (Some ''/usr/share/couchapp/templates'') ''dst'' w_linux)"

text \<open>
  The file system of \<^verbatim>\<open>env_linux\<close> with one more directory, \<^verbatim>\<open>/usr/share/couchapp/sealed\<close>,
  whose only entry is a read-only file, and the world after a first merge copy of that
  directory into \<^verbatim>\<open>/home/u/dst\<close>.
\<close>

definition fs_sealed :: filesystem where
  "fs_sealed =
     fs_linux @
     [([''usr'', ''share'', ''couchapp'', ''sealed''], Dir),
      ([''usr'', ''share'', ''couchapp'', ''sealed'', ''LICENSE''], File ''Apache-2.0'' 292)]"

definition w_sealed :: world where "w_sealed = \<lparr>fs = fs_sealed, log = []\<rparr>"

definition w_sealed1 :: world where
  "w_sealed1 = snd (copy_helper env_linux (Some ''/usr/share/couchapp/sealed'') ''dst'' w_sealed)"

section \<open>Basic facts\<close>

subsection \<open>Paths\<close>

lemma split_on_not_Nil: "split_on c xs \<noteq> []"
  by (induction xs) (auto split: list.splits)

lemma split_on_append: "split_on c (a @ c # b) = split_on c a @ split_on c b"
proof (induction a)
  case Nil
  then show ?case by simp
next
  case (Cons x xs)
  then show ?case
    using split_on_not_Nil [of c xs] by (cases "split_on c xs") auto
qed

lemma split_on_plain: "c \<notin> set n \<Longrightarrow> split_on c n = [n]"
  by (induction n) auto

lemma walk_step_plain: "plain n \<Longrightarrow> walk_step q n = q @ [n]"
  by (simp add: walk_step_def plain_def)

lemma join2_plain:
  assumes "plain n" "p \<noteq> []"
  shows "\<exists>b. p = b @ ''/'' \<and> os_path_join p [n] = b @ ''/'' @ n
           \<or> last p \<noteq> CHR ''/'' \<and> os_path_join p [n] = p @ ''/'' @ n"
proof (cases "last p = CHR ''/''")
  case True
  then have "p = butlast p @ ''/''" using assms(2)
    by (metis append_butlast_last_id)
  moreover have "take 1 n \<noteq> ''/''" using assms(1) by (cases n) (auto simp: plain_def)
  ultimately show ?thesis using True assms(2)
    by (auto simp: os_path_join_def join2_def)
next
  case False
  moreover have "take 1 n \<noteq> ''/''" using assms(1) by (cases n) (auto simp: plain_def)
  ultimately show ?thesis using assms(2) by (auto simp: os_path_join_def join2_def)
qed

lemma resolve_join:
  assumes n: "plain n" and r: "resolve env p = Some q"
  shows "resolve env (os_path_join p [n]) = Some (q @ [n])"
proof -
  have pne: "p \<noteq> []" using r by (auto simp: resolve_def split: if_splits)
  have sp: "split_on CHR ''/'' n = [n]" using n by (simp add: split_on_plain plain_def)
  let ?s = "if take 1 p = ''/'' then [] else cwd env"
  have q: "q = foldl walk_step ?s (split_on CHR ''/'' p)"
    using r pne by (simp add: resolve_def)
  from join2_plain [OF n pne] show ?thesis
  proof (elim exE disjE conjE)
    fix b assume b: "p = b @ ''/''" and j: "os_path_join p [n] = b @ ''/'' @ n"
    have t: "take 1 (b @ ''/'' @ n) = take 1 p" using b by (cases b) auto
    have "split_on CHR ''/'' p = split_on CHR ''/'' b @ [[]]"
      using split_on_append [of "CHR ''/''" b "[]"] b by simp
    then have q': "q = foldl walk_step ?s (split_on CHR ''/'' b)"
      using q by (simp add: walk_step_def)
    have "split_on CHR ''/'' (b @ ''/'' @ n) = split_on CHR ''/'' b @ [n]"
      using split_on_append [of "CHR ''/''" b n] sp by simp
    then show ?thesis using j t q' n by (simp add: resolve_def walk_step_plain)
  next
    assume j: "os_path_join p [n] = p @ ''/'' @ n"
    have t: "take 1 (p @ ''/'' @ n) = take 1 p" using pne by (cases p) auto
    have "split_on CHR ''/'' (p @ ''/'' @ n) = split_on CHR ''/'' p @ [n]"
      using split_on_append [of "CHR ''/''" p n] sp by simp
    then show ?thesis using j t q n pne by (simp add: resolve_def walk_step_plain)
  qed
qed

lemma basename_join:
  assumes n: "plain n" and pne: "p \<noteq> []"
  shows "os_path_basename (os_path_join p [n]) = n"
proof -
  have nn: "\<forall>c\<in>set n. c \<noteq> CHR ''/''" using n by (auto simp: plain_def)
  have "\<exists>b. os_path_join p [n] = b @ ''/'' @ n" using join2_plain [OF n pne] by auto
  then obtain b where b: "os_path_join p [n] = b @ ''/'' @ n" by blast
  have "takeWhile (\<lambda>c. c \<noteq> CHR ''/'') (rev n @ ''/'' @ rev b) = rev n"
    using nn by (subst takeWhile_append2) auto
  then show ?thesis using b
    by (simp add: os_path_basename_def os_path_split_def Let_def)
qed

subsection \<open>File-system operations\<close>

lemma node_at_Cons:
  "node_at ((q, n) # f) k = (if k = [] then Some Dir else if k = q then Some n else node_at f k)"
  by (simp add: node_at_def)

lemma os_mkdir_Inr:
  assumes "os_mkdir env p f = Inr f'"
  shows "\<exists>q. resolve env p = Some q \<and> node_at f q = None \<and> node_at f (butlast q) = Some Dir
             \<and> f' = (q, Dir) # f"
  using assms
  by (auto simp: os_mkdir_def split: option.splits if_splits node.splits)

lemma setup_dir_Inr:
  assumes "setup_dir env p re w = (Inr (), w')"
  shows "os_path_isdir env p (fs w')"
    and "os_path_isdir env k (fs w) \<Longrightarrow> os_path_isdir env k (fs w')"
    and "log w' = log w"
proof -
  have "os_path_isdir env p (fs w') \<and> (os_path_isdir env k (fs w) \<longrightarrow> os_path_isdir env k (fs w'))
          \<and> log w' = log w"
  proof (cases "os_path_isdir env p (fs w)")
    case True
    then have "w' = w" using assms
      by (auto simp: setup_dir_def split: if_splits sum.splits list.splits)
    then show ?thesis using True by simp
  next
    case False
    then obtain f' where m: "os_mkdir env p (fs w) = Inr f'" and w': "w' = w\<lparr>fs := f'\<rparr>"
      using assms by (auto simp: setup_dir_def split: if_splits sum.splits)
    from os_mkdir_Inr [OF m] obtain q where q: "resolve env p = Some q" "node_at (fs w) q = None"
      "f' = (q, Dir) # fs w" by blast
    show ?thesis using q w'
      by (auto simp: os_path_isdir_def lookup_def node_at_Cons split: option.splits)
  qed
  then show "os_path_isdir env p (fs w')"
    and "os_path_isdir env k (fs w) \<Longrightarrow> os_path_isdir env k (fs w')"
    and "log w' = log w" by auto
qed

lemma setup_dirs_Inr:
  assumes "setup_dirs env ps re w = (Inr (), w')"
  shows "(\<forall>p\<in>set ps. os_path_isdir env p (fs w'))
         \<and> (\<forall>k. os_path_isdir env k (fs w) \<longrightarrow> os_path_isdir env k (fs w'))
         \<and> log w' = log w"
  using assms
proof (induction ps arbitrary: w)
  case Nil
  then show ?case by simp
next
  case (Cons p ps)
  from Cons.prems obtain w1 where s: "setup_dir env p re w = (Inr (), w1)"
    and r: "setup_dirs env ps re w1 = (Inr (), w')"
    by (auto split: prod.splits sum.splits)
  from Cons.IH [OF r] setup_dir_Inr [OF s] show ?case by auto
qed

lemma probe_roots_none:
  assumes "\<forall>x\<in>set rs. \<not> os_path_isdir env (probe_path x n t) (fs w)"
  shows "probe_roots env n t rs w =
           (None,
            w\<lparr>log := log w
                 @ map (\<lambda>x. (''debug'', ''template search path: '' @ probe_path x n t @ '' not found'')) rs\<rparr>)"
  using assms
  by (induction rs arbitrary: w) (simp_all add: logger_def Let_def)

lemma fs_logger: "fs (logger l m w) = fs w"
  by (simp add: logger_def)

lemma log_logger: "log (logger l m w) = log w @ [(l, m)]"
  by (simp add: logger_def)

lemma find_template_dir_vendor_none:
  assumes "\<forall>x\<in>set (search_paths env). \<not> os_path_isdir env (probe_path x (normal_name n) ''vendor'') (fs w)"
  shows "\<exists>w'. find_template_dir env n ''vendor'' False w = (Inr None, w') \<and> fs w' = fs w
              \<and> set (log w) \<subseteq> set (log w')"
  using probe_roots_none [OF assms]
  by (simp add: find_template_dir_def TEMPLATE_TYPES_def Let_def)


lemma probe_roots_fs: "fs (snd (probe_roots env n t rs w)) = fs w"
  by (induction rs arbitrary: w) (simp_all add: Let_def fs_logger)

lemma find_template_dir_fs: "fs (snd (find_template_dir env n t r w)) = fs w"
  using probe_roots_fs [of env "normal_name n" t "search_paths env" w]
  by (auto simp: find_template_dir_def Let_def fs_logger split: prod.splits option.splits)





section \<open>Template resolution\<close>

lemma probe_roots_first:
  assumes "\<forall>x\<in>set pre. \<not> os_path_isdir env (probe_path x n t) (fs w)"
      and "os_path_isdir env (probe_path r n t) (fs w)"
  shows "probe_roots env n t (pre @ r # post) w =
           (Some (probe_path r n t),
            w\<lparr>log := log w
                 @ map (\<lambda>x. (''debug'', ''template search path: '' @ probe_path x n t @ '' not found'')) pre
                 @ [(''debug'', ''template path match: '' @ probe_path r n t)]\<rparr>)"
  using assms
  by (induction pre arbitrary: w) (simp_all add: logger_def Let_def)

text \<open>
  C1. For every template name and each of the four valid template types,
  \<^verbatim>\<open>find_template_dir\<close> returns the probe path \<^verbatim>\<open><root>/templates/<tmpl_name>/<tmpl_type>\<close>
  (the name \<^verbatim>\<open>default\<close> standing for the empty name) of the first root of the search path
  whose probe path is a directory. The roots before it are probed and logged as not found,
  the roots after it are not probed at all, and nothing of another root enters the result.
  The search path is the user paths, the module directory, its parent, the roots of the
  platform, and on macOS the Application Support root last.
\<close>

theorem find_template_dir_first_match:
  assumes "tmpl_type \<in> {[], ''app'', ''functions'', ''vendor''}"
      and "search_paths env = pre @ root # post"
      and "\<forall>x\<in>set pre. \<not> os_path_isdir env (probe_path x (normal_name tmpl_name) tmpl_type) (fs w)"
      and "os_path_isdir env (probe_path root (normal_name tmpl_name) tmpl_type) (fs w)"
  shows "find_template_dir env tmpl_name tmpl_type raise_error w =
           (Inr (Some (os_path_join (normpath root)
                         [''templates'', if tmpl_name = ''default'' then [] else tmpl_name, tmpl_type])),
            w\<lparr>log := log w
                 @ map (\<lambda>x. (''debug'', ''template search path: ''
                                @ probe_path x (normal_name tmpl_name) tmpl_type @ '' not found'')) pre
                 @ [(''debug'', ''template path match: ''
                       @ probe_path root (normal_name tmpl_name) tmpl_type)]\<rparr>)
         \<and> search_paths env =
             user_path env
             @ [os_path_dirname (module_file env), os_path_join (os_path_dirname (module_file env)) [''..'']]
             @ (if os_name env = ''posix''
                then [''/usr/share/couchapp'', ''/usr/local/share/couchapp'', ''/opt/couchapp'']
                else if is_py2exe env then [os_path_dirname (sys_executable env)]
                else if is_windows env
                then [os_path_join (sys_prefix env) [''Lib'', ''site-packages'', ''couchapp'']]
                else [])
             @ (if take 6 (sys_platform env) = ''darwin''
                then [expanduser env ''~/Library/Application Support/Couchapp''] else [])"
proof -
  have t: "\<not> (tmpl_type \<noteq> [] \<and> tmpl_type \<notin> set TEMPLATE_TYPES)"
    using assms(1) by (auto simp: TEMPLATE_TYPES_def)
  have p: "probe_roots env (normal_name tmpl_name) tmpl_type (search_paths env) w =
             (Some (probe_path root (normal_name tmpl_name) tmpl_type),
              w\<lparr>log := log w
                 @ map (\<lambda>x. (''debug'', ''template search path: ''
                                @ probe_path x (normal_name tmpl_name) tmpl_type @ '' not found'')) pre
                 @ [(''debug'', ''template path match: ''
                       @ probe_path root (normal_name tmpl_name) tmpl_type)]\<rparr>)"
    unfolding assms(2) by (rule probe_roots_first [OF assms(3) assms(4)])
  have a: "find_template_dir env tmpl_name tmpl_type raise_error w =
             (Inr (Some (probe_path root (normal_name tmpl_name) tmpl_type)),
              w\<lparr>log := log w
                 @ map (\<lambda>x. (''debug'', ''template search path: ''
                                @ probe_path x (normal_name tmpl_name) tmpl_type @ '' not found'')) pre
                 @ [(''debug'', ''template path match: ''
                       @ probe_path root (normal_name tmpl_name) tmpl_type)]\<rparr>)"
    using t p unfolding find_template_dir_def normal_name_def by (simp add: Let_def)
  have b: "probe_path root (normal_name tmpl_name) tmpl_type =
             os_path_join (normpath root)
                         [''templates'', if tmpl_name = ''default'' then [] else tmpl_name, tmpl_type]"
    by (simp add: probe_path_def normal_name_def)
  show ?thesis using a b by (simp add: search_paths_def Let_def)
qed

theorem find_template_dir_first_match_witness:
  "find_template_dir env_mac ''default'' ''app'' False w_mac =
     (Inr (Some ''/usr/local/share/couchapp/templates/app''),
      w_mac\<lparr>log :=
        [(''debug'', ''template search path: /Users/u/.couchapp/templates/app not found''),
         (''debug'', ''template search path: /Library/Python/2.7/site-packages/couchapp/templates/app not found''),
         (''debug'', ''template search path: /Library/Python/2.7/site-packages/templates/app not found''),
         (''debug'', ''template search path: /usr/share/couchapp/templates/app not found''),
         (''debug'', ''template path match: /usr/local/share/couchapp/templates/app'')]\<rparr>)
   \<and> search_paths env_mac =
       [''/Users/u/.couchapp'', ''/Library/Python/2.7/site-packages/couchapp'',
        ''/Library/Python/2.7/site-packages/couchapp/..'', ''/usr/share/couchapp'',
        ''/usr/local/share/couchapp'', ''/opt/couchapp'',
        ''/Users/u/Library/Application Support/Couchapp'']"
proof -
  have h1: "''app'' \<in> {[], ''app'', ''functions'', ''vendor''}" by simp
  have h2: "search_paths env_mac =
      [''/Users/u/.couchapp'', ''/Library/Python/2.7/site-packages/couchapp'',
        ''/Library/Python/2.7/site-packages/couchapp/..'', ''/usr/share/couchapp'']
      @ ''/usr/local/share/couchapp'' # [''/opt/couchapp'',
        ''/Users/u/Library/Application Support/Couchapp'']"
    by code_simp
  have h3: "\<forall>x\<in>set [''/Users/u/.couchapp'', ''/Library/Python/2.7/site-packages/couchapp'',
        ''/Library/Python/2.7/site-packages/couchapp/..'', ''/usr/share/couchapp''].
      \<not> os_path_isdir env_mac (probe_path x (normal_name ''default'') ''app'') (fs w_mac)"
    by code_simp
  have h4: "os_path_isdir env_mac (probe_path ''/usr/local/share/couchapp'' (normal_name ''default'') ''app'') (fs w_mac)"
    by code_simp
  have p: "map (\<lambda>x. probe_path x (normal_name ''default'') ''app'')
             [''/Users/u/.couchapp'', ''/Library/Python/2.7/site-packages/couchapp'',
               ''/Library/Python/2.7/site-packages/couchapp/..'', ''/usr/share/couchapp'',
               ''/usr/local/share/couchapp'']
           = [''/Users/u/.couchapp/templates/app'', ''/Library/Python/2.7/site-packages/couchapp/templates/app'',
               ''/Library/Python/2.7/site-packages/templates/app'', ''/usr/share/couchapp/templates/app'',
               ''/usr/local/share/couchapp/templates/app'']"
    by code_simp
  have l: "log w_mac = []" by (simp add: w_mac_def)
  have r: "os_path_join (normpath ''/usr/local/share/couchapp'') [''templates'', [], ''app'']
             = ''/usr/local/share/couchapp/templates/app''"
    by code_simp
  note T = find_template_dir_first_match [OF h1 h2 h3 h4, of False]
  have A: "find_template_dir env_mac ''default'' ''app'' False w_mac =
     (Inr (Some ''/usr/local/share/couchapp/templates/app''),
      w_mac\<lparr>log :=
        [(''debug'', ''template search path: /Users/u/.couchapp/templates/app not found''),
         (''debug'', ''template search path: /Library/Python/2.7/site-packages/couchapp/templates/app not found''),
         (''debug'', ''template search path: /Library/Python/2.7/site-packages/templates/app not found''),
         (''debug'', ''template search path: /usr/share/couchapp/templates/app not found''),
         (''debug'', ''template path match: /usr/local/share/couchapp/templates/app'')]\<rparr>)"
    using T [THEN conjunct1] p l r by simp
  show ?thesis using A h2 by simp
qed


section \<open>Generating artifacts\<close>

text \<open>
  C8, as the spec states it: an empty name is rejected with the missing-name error before
  any generation is attempted. The code tests \<^verbatim>\<open>name is None\<close> only: with the empty string
  as name, generating a list succeeds and creates \<^verbatim>\<open>app/lists\<close>.
\<close>

theorem generate_empty_name_counterexample:
  "fst (generate env_linux ''app'' ''list'' (Some '''') None w_linux) = Inr ()
   \<and> \<not> os_path_isdir env_linux ''app/lists'' (fs w_linux)
   \<and> os_path_isdir env_linux ''app/lists''
        (fs (snd (generate env_linux ''app'' ''list'' (Some '''') None w_linux)))"
  by code_simp


text \<open>
  C8, amended. A kind outside the fixed set is rejected with the unknown-kind error,
  whatever the name is; with a kind of the set, a missing name (\<^verbatim>\<open>None\<close>) is rejected with
  the missing-name error. In both cases nothing has been done: the world is returned as it
  was given.
\<close>

theorem generate_rejects:
  assumes "kind \<notin> {''view'', ''list'', ''show'', ''filter'', ''function'', ''vendor'', ''update'', ''spatial''}
             \<or> name = None"
  shows "generate env path kind name template w =
           (Inl (AppError
                  (if kind \<notin> {''view'', ''list'', ''show'', ''filter'', ''function'', ''vendor'',
                                ''update'', ''spatial''}
                   then ''Cannot generate '' @ kind @ '' in your couchapp. generator is unknown.''
                   else ''Cannot generate '' @ kind @ '' function, name is missing'')), w)"
  using assms by (auto simp: generate_def func_list_def)

theorem generate_rejects_witness:
  "generate env_linux ''app'' ''view'' None None w_linux =
     (Inl (AppError ''Cannot generate view function, name is missing''), w_linux)"
proof -
  have h: "''view'' \<notin> {''view'', ''list'', ''show'', ''filter'', ''function'', ''vendor'', ''update'', ''spatial''}
             \<or> (None :: string option) = None" by simp
  show ?thesis using generate_rejects [OF h, of env_linux "''app''" None w_linux] by simp
qed


text \<open>
  C4. The spec has vendor generation create \<^verbatim>\<open>path/vendor/<name>\<close> and merge-copy the
  directory named by the template argument into it. \<^verbatim>\<open>generate\<close> reaches for
  \<^verbatim>\<open>generate_vendor\<close>, which the module does not define, so every vendor generation with a
  name ends in \<^verbatim>\<open>NameError\<close> with nothing created. The vendor branch of
  \<^verbatim>\<open>generate_function\<close>, called directly, creates \<^verbatim>\<open>vendor/jquery\<close> but copies in the other
  direction, from the app path to the template path: \<^verbatim>\<open>vendor/jquery\<close> stays empty.
\<close>

theorem generate_vendor_name_error:
  "generate env path ''vendor'' (Some name) template w = (Inl (NameError ''generate_vendor''), w)
   \<and> fst (generate_function env_vendor ''/home/u/app'' ''vendor'' ''jquery'' (Some ''jq'') w_vendor) = Inr ()
   \<and> os_listdir env_vendor ''/home/u/app/vendor/jquery''
        (fs (snd (generate_function env_vendor ''/home/u/app'' ''vendor'' ''jquery'' (Some ''jq'') w_vendor)))
       = Inr []"
proof -
  have a: "generate env path ''vendor'' (Some name) template w = (Inl (NameError ''generate_vendor''), w)"
    by (simp add: generate_def func_list_def)
  have b: "fst (generate_function env_vendor ''/home/u/app'' ''vendor'' ''jquery'' (Some ''jq'') w_vendor) = Inr ()"
    by code_simp
  have c: "os_listdir env_vendor ''/home/u/app/vendor/jquery''
        (fs (snd (generate_function env_vendor ''/home/u/app'' ''vendor'' ''jquery'' (Some ''jq'') w_vendor)))
       = Inr []"
    by code_simp
  show ?thesis using a b c by simp
qed


text \<open>
  C5. Template sets are to be read only. The vendor branch of \<^verbatim>\<open>generate_function\<close> calls
  \<^verbatim>\<open>copy_helper(path, targetpath)\<close> with the app path as source and the template path as
  destination: here the template set \<^verbatim>\<open>jq\<close> that \<^verbatim>\<open>find_template_dir\<close> resolved is the
  directory the relative path \<^verbatim>\<open>jq\<close> names, and after the call it holds the app's \<^verbatim>\<open>_id\<close>
  file, which it did not before.
\<close>

theorem generate_function_vendor_writes_template:
  "lookup env_vendor (fs w_vendor) ''/home/u/.couchapp/templates/jq/_id'' = None
   \<and> find_template_dir env_vendor ''jq'' [] False w_vendor
        = (Inr (Some ''/home/u/.couchapp/templates/jq/''),
           logger ''debug'' ''template path match: /home/u/.couchapp/templates/jq/'' w_vendor)
   \<and> fst (generate_function env_vendor ''/home/u/app'' ''vendor'' ''jquery'' (Some ''jq'') w_vendor) = Inr ()
   \<and> lookup env_vendor
        (fs (snd (generate_function env_vendor ''/home/u/app'' ''vendor'' ''jquery'' (Some ''jq'') w_vendor)))
        ''/home/u/.couchapp/templates/jq/_id'' = Some (File ''_design/app'' 5)"
  by code_simp


text \<open>
  C3. The first generation of the view \<^verbatim>\<open>byDate\<close> succeeds and creates the directory
  \<^verbatim>\<open>views/byDate\<close>, but the directory stays empty although the functions template holds
  \<^verbatim>\<open>map.js\<close> and \<^verbatim>\<open>reduce.js\<close>: the copy is written \<^verbatim>\<open>shutil.copy2\<close>, the module imports only
  the names \<^verbatim>\<open>copy2\<close> and \<^verbatim>\<open>copytree\<close>, and the bare \<^verbatim>\<open>except\<close> swallows the \<^verbatim>\<open>NameError\<close>.
  The second generation fails because the view already exists, as the spec says.
\<close>

theorem generate_view_copies_nothing:
  "fst (generate env_linux ''app'' ''view'' (Some ''byDate'') None w_linux) = Inr ()
   \<and> os_listdir env_linux ''app/views/byDate''
        (fs (snd (generate env_linux ''app'' ''view'' (Some ''byDate'') None w_linux))) = Inr []
   \<and> lookup env_linux (fs w_linux) ''/usr/share/couchapp/templates/functions/map.js''
        = Some (File ''function(doc) {}'' 3)
   \<and> lookup env_linux (fs w_linux) ''/usr/share/couchapp/templates/functions/reduce.js''
        = Some (File ''function(keys, values) {}'' 4)
   \<and> fst (generate env_linux ''app'' ''view'' (Some ''byDate'') None
             (snd (generate env_linux ''app'' ''view'' (Some ''byDate'') None w_linux)))
        = Inl (AppError ''The view byDate already exists'')"
  by code_simp


text \<open>
  C6. With \<^verbatim>\<open>reduce.js\<close> missing from the functions template the call does not fail and
  warns about \<^verbatim>\<open>reduce.js\<close> and its expected location, as the spec says. It also warns
  about \<^verbatim>\<open>map.js\<close>, which is there, and does not produce \<^verbatim>\<open>map.js\<close> at the destination:
  the same unbound name \<^verbatim>\<open>shutil\<close> as for C3.
\<close>

theorem generate_view_missing_reduce:
  "lookup env_linux (fs w_no_reduce) ''/usr/share/couchapp/templates/functions/map.js''
        = Some (File ''function(doc) {}'' 3)
   \<and> lookup env_linux (fs w_no_reduce) ''/usr/share/couchapp/templates/functions/reduce.js'' = None
   \<and> fst (generate env_linux ''app'' ''view'' (Some ''byDate'') None w_no_reduce) = Inr ()
   \<and> (''warning'', ''reduce.js not found in /usr/share/couchapp/templates/functions'')
        \<in> set (log (snd (generate env_linux ''app'' ''view'' (Some ''byDate'') None w_no_reduce)))
   \<and> (''warning'', ''map.js not found in /usr/share/couchapp/templates/functions'')
        \<in> set (log (snd (generate env_linux ''app'' ''view'' (Some ''byDate'') None w_no_reduce)))
   \<and> lookup env_linux (fs (snd (generate env_linux ''app'' ''view'' (Some ''byDate'') None w_no_reduce)))
        ''app/views/byDate/map.js'' = None"
  by code_simp













section \<open>Initialising a basic app\<close>

lemma wf_fs_entry:
  assumes "wf_fs f" "(k, n) \<in> set f"
  shows "k \<noteq> []" "list_all plain k" "node_at f (butlast k) = Some Dir"
  using assms by (auto simp: wf_fs_def list_all_iff)

lemma set_children:
  "set (children f q) = {last k | k n. (k, n) \<in> set f \<and> k \<noteq> [] \<and> butlast k = q}"
  by (auto simp: children_def image_iff) force

lemma set_children_Cons:
  "set (children ((k, n) # f) q) =
     (if k \<noteq> [] \<and> butlast k = q then insert (last k) (set (children f q)) else set (children f q))"
  by (auto simp: set_children)

lemma in_children:
  assumes "node_at f (q @ [n]) \<noteq> None"
  shows "n \<in> set (children f q)"
proof -
  from assms obtain x where "map_of f (q @ [n]) = Some x" by (auto simp: node_at_def)
  then have "(q @ [n], x) \<in> set f" by (rule map_of_SomeD)
  then show ?thesis unfolding set_children by force
qed

lemma children_missing:
  assumes "wf_fs f" "node_at f q = None"
  shows "children f q = []"
proof -
  have "set (children f q) = {}"
    unfolding set_children using wf_fs_entry(3) [OF assms(1)] assms(2) by auto
  then show ?thesis by simp
qed

lemma setup_dir_resolve:
  assumes "setup_dir env p re w = (Inr (), w')"
  shows "\<exists>q. resolve env p = Some q"
proof (cases "os_path_isdir env p (fs w)")
  case True
  then show ?thesis by (auto simp: os_path_isdir_def lookup_def split: option.splits)
next
  case False
  then obtain f' where "os_mkdir env p (fs w) = Inr f'"
    using assms by (auto simp: setup_dir_def split: if_splits sum.splits)
  from os_mkdir_Inr [OF this] show ?thesis by blast
qed

lemma setup_dir_cases:
  assumes "setup_dir env p re w = (Inr (), w')" "resolve env p = Some q"
  shows "(w' = w \<and> node_at (fs w) q = Some Dir \<and> (re \<longrightarrow> children (fs w) q = []))
         \<or> (w' = w\<lparr>fs := (q, Dir) # fs w\<rparr> \<and> node_at (fs w) q = None)"
proof (cases "os_path_isdir env p (fs w)")
  case True
  then have d: "node_at (fs w) q = Some Dir" using assms(2) by (simp add: os_path_isdir_def lookup_def)
  have "w' = w" using assms(1) True
    by (auto simp: setup_dir_def split: if_splits sum.splits list.splits)
  moreover have "children (fs w) q = []" if re
    using assms True that d
    by (auto simp: setup_dir_def os_listdir_def split: if_splits sum.splits list.splits)
  ultimately show ?thesis using d by simp
next
  case False
  then obtain f' where m: "os_mkdir env p (fs w) = Inr f'" and w': "w' = w\<lparr>fs := f'\<rparr>"
    using assms by (auto simp: setup_dir_def split: if_splits sum.splits)
  from os_mkdir_Inr [OF m] assms(2) show ?thesis using w' by auto
qed

lemma setup_dir_children:
  assumes "setup_dir env p re w = (Inr (), w')" "resolve env p = Some (q @ [n])"
  shows "set (children (fs w') q) = insert n (set (children (fs w) q))"
  using setup_dir_cases [OF assms] in_children [of "fs w" q n]
  by (auto simp: set_children_Cons)

lemma butlast_neq: "q \<noteq> [] \<Longrightarrow> butlast q \<noteq> q"
  by (metis length_butlast diff_less length_greater_0_conv less_irrefl zero_less_one)

lemma setup_dir_empty:
  assumes "wf_fs (fs w)" "setup_dir env p True w = (Inr (), w')" "resolve env p = Some q"
  shows "children (fs w') q = []"
proof -
  from setup_dir_cases [OF assms(2,3)] show ?thesis
  proof (elim disjE conjE)
    assume "w' = w\<lparr>fs := (q, Dir) # fs w\<rparr>" "node_at (fs w) q = None"
    then have "set (children (fs w') q) = {}"
      using children_missing [OF assms(1), of q] butlast_neq [of q]
      by (auto simp: set_children_Cons)
    then show ?thesis by simp
  qed simp
qed

lemma setup_dirs_children:
  assumes "\<forall>n\<in>set ns. plain n" "resolve env p = Some q"
      and "setup_dirs env (map (\<lambda>n. os_path_join p [n]) ns) re w = (Inr (), w')"
  shows "set (children (fs w') q) = set ns \<union> set (children (fs w) q)"
  using assms
proof (induction ns arbitrary: w)
  case Nil
  then show ?case by simp
next
  case (Cons n ns)
  from Cons.prems(3) obtain w1 where s: "setup_dir env (os_path_join p [n]) re w = (Inr (), w1)"
    and r: "setup_dirs env (map (\<lambda>n. os_path_join p [n]) ns) re w1 = (Inr (), w')"
    by (auto split: prod.splits sum.splits)
  have "resolve env (os_path_join p [n]) = Some (q @ [n])"
    using resolve_join Cons.prems(1,2) by simp
  from setup_dir_children [OF s this] Cons.IH [OF _ Cons.prems(2) r] Cons.prems(1)
  show ?case by auto
qed

lemma save_id_Inr:
  assumes "save_id env p name w = (Inr (), w')" "resolve env p = Some q"
  shows "w' = w\<lparr>fs := (q @ [''_id''], File name (clock env)) # fs w\<rparr>
         \<and> node_at (fs w) (q @ [''_id'']) \<noteq> Some Dir"
proof -
  have "plain ''_id''" by (simp add: plain_def)
  then have "resolve env (os_path_join p [''_id'']) = Some (q @ [''_id''])"
    using assms(2) by (rule resolve_join)
  then show ?thesis using assms(1)
    by (auto simp: save_id_def write_file_def split: sum.splits if_splits option.splits node.splits)
qed

lemma default_tree_plain: "\<forall>n\<in>set DEFAULT_APP_TREE. plain n"
  by (simp add: DEFAULT_APP_TREE_def plain_def)


text \<open>
  C9, as the spec states it: after a successful \<^verbatim>\<open>init_basic\<close> the listing of the app
  directory is exactly the six standard directories and \<^verbatim>\<open>_id\<close>. The last step of
  \<^verbatim>\<open>init_basic\<close> hands the directory to the manifest-document collaborator, and its own
  docstring lists \<^verbatim>\<open>.couchapprc\<close> and \<^verbatim>\<open>.couchappignore\<close> in the result: with such a
  collaborator the listing has nine entries.
\<close>

theorem init_basic_listing_counterexample:
  "wf_fs (fs w_linux)
   \<and> fst (init_basic env_rc ''proj'' w_linux) = Inr ()
   \<and> os_listdir env_rc ''proj'' (fs (snd (init_basic env_rc ''proj'' w_linux)))
       = Inr [''.couchappignore'', ''.couchapprc'', ''_id'', ''views'', ''updates'', ''shows'',
              ''lists'', ''filters'', ''_attachments'']"
  by code_simp


text \<open>
  C9, amended. On a well-formed file system, a successful \<^verbatim>\<open>init_basic\<close> reaches a world,
  the one it hands to the collaborator, in which the listing of the app directory is
  exactly the six standard directories and \<^verbatim>\<open>_id\<close>, each of the six is a directory, and
  \<^verbatim>\<open>_id\<close> holds \<^verbatim>\<open>_design/\<close> followed by the base name of the path; the final world is
  what the collaborator makes of that one.
\<close>

theorem init_basic_tree:
  assumes "wf_fs (fs w)" and "init_basic env P w = (Inr (), w')"
  shows "\<exists>w3 names.
           os_listdir env P (fs w3) = Inr names \<and> distinct names
           \<and> set names = {''_attachments'', ''filters'', ''lists'', ''shows'', ''updates'', ''views'', ''_id''}
           \<and> (\<forall>n\<in>set DEFAULT_APP_TREE. os_path_isdir env (os_path_join P [n]) (fs w3))
           \<and> lookup env (fs w3) (os_path_join P [''_id''])
                = Some (File (''_design/'' @ os_path_basename P) (clock env))
           \<and> localdoc_document env P w3 = (Inr (), w')"
proof -
  from assms(2) obtain w1 w2 w3 where
    s1: "setup_dir env P True w = (Inr (), w1)" and
    s2: "setup_dirs env (map (\<lambda>n. os_path_join P [n]) DEFAULT_APP_TREE) True w1 = (Inr (), w2)" and
    s3: "save_id env P (''_design/'' @ snd (os_path_split P)) w2 = (Inr (), w3)" and
    s4: "localdoc_document env P w3 = (Inr (), w')"
    by (auto simp: init_basic_def split: prod.splits sum.splits)
  from setup_dir_resolve [OF s1] obtain q where q: "resolve env P = Some q" by blast
  have c1: "children (fs w1) q = []" by (rule setup_dir_empty [OF assms(1) s1 q])
  have d1: "os_path_isdir env P (fs w1)" by (rule setup_dir_Inr(1) [OF s1])
  have c2: "set (children (fs w2) q) = set DEFAULT_APP_TREE"
    using setup_dirs_children [OF default_tree_plain q s2] c1 by simp
  have d2: "os_path_isdir env P (fs w2)"
       "\<forall>n\<in>set DEFAULT_APP_TREE. os_path_isdir env (os_path_join P [n]) (fs w2)"
    using setup_dirs_Inr [OF s2] d1 by auto
  have w3: "w3 = w2\<lparr>fs := (q @ [''_id''], File (''_design/'' @ snd (os_path_split P)) (clock env)) # fs w2\<rparr>"
    and nd: "node_at (fs w2) (q @ [''_id'']) \<noteq> Some Dir"
    using save_id_Inr [OF s3 q] by auto
  have c3: "set (children (fs w3) q) = insert ''_id'' (set DEFAULT_APP_TREE)"
    using c2 w3 by (simp add: set_children_Cons)
  have keep: "os_path_isdir env x (fs w3)" if "os_path_isdir env x (fs w2)" for x
    using that w3 nd by (auto simp: os_path_isdir_def lookup_def node_at_Cons split: option.splits)
  have l: "os_listdir env P (fs w3) = Inr (children (fs w3) q)"
    using keep [OF d2(1)] q by (simp add: os_listdir_def os_path_isdir_def lookup_def)
  have i: "lookup env (fs w3) (os_path_join P [''_id''])
             = Some (File (''_design/'' @ os_path_basename P) (clock env))"
    using resolve_join [OF _ q, of "''_id''"] w3
    by (simp add: lookup_def node_at_Cons plain_def os_path_basename_def)
  have "distinct (children (fs w3) q)" by (simp add: children_def)
  moreover have "set (children (fs w3) q)
      = {''_attachments'', ''filters'', ''lists'', ''shows'', ''updates'', ''views'', ''_id''}"
    using c3 by (auto simp: DEFAULT_APP_TREE_def)
  ultimately show ?thesis using l d2(2) keep i s4 by blast
qed

theorem init_basic_tree_witness:
  "\<exists>w3 names.
     os_listdir env_rc ''proj'' (fs w3) = Inr names \<and> distinct names
     \<and> set names = {''_attachments'', ''filters'', ''lists'', ''shows'', ''updates'', ''views'', ''_id''}
     \<and> (\<forall>n\<in>set DEFAULT_APP_TREE. os_path_isdir env_rc (os_path_join ''proj'' [n]) (fs w3))
     \<and> lookup env_rc (fs w3) (os_path_join ''proj'' [''_id''])
          = Some (File (''_design/'' @ os_path_basename ''proj'') (clock env_rc))
     \<and> localdoc_document env_rc ''proj'' w3 = (Inr (), snd (init_basic env_rc ''proj'' w_linux))"
proof -
  have h1: "wf_fs (fs w_linux)" by code_simp
  have h2: "init_basic env_rc ''proj'' w_linux = (Inr (), snd (init_basic env_rc ''proj'' w_linux))"
    by code_simp
  show ?thesis by (rule init_basic_tree [OF h1 h2])
qed


section \<open>Merge copy\<close>

subsection \<open>One entry\<close>

lemma resolve_nonempty: "resolve env p = Some q \<Longrightarrow> p \<noteq> []"
  by (auto simp: resolve_def split: if_splits)

lemma resolve_join2:
  assumes "plain a" "plain b" "resolve env p = Some q"
  shows "resolve env (os_path_join p [a, b]) = Some (q @ [a, b])"
proof -
  have "os_path_join p [a, b] = os_path_join (os_path_join p [a]) [b]"
    by (simp add: os_path_join_def)
  then show ?thesis using resolve_join [OF assms(2) resolve_join [OF assms(1,3)]] by simp
qed

lemma delivered_iff:
  assumes "plain p" "resolve env dest = Some D"
  shows "delivered env f dest p x \<longleftrightarrow>
           node_at f (D @ [p]) = Some x
           \<or> node_at f (D @ [p]) = Some Dir \<and> node_at f (D @ [p, p]) = Some x"
  using resolve_join [OF assms] resolve_join2 [OF assms(1) assms]
  by (simp add: delivered_def lookup_def os_path_isdir_def)

lemma copy_entry_file:
  assumes p: "plain p" and S: "resolve env src = Some S" and D: "resolve env dest = Some D"
    and dj: "\<not> prefix S D" "\<not> prefix D S"
    and sf: "node_at f (S @ [p]) = Some (File c m)"
  shows "copy_entry env src dest p f =
           (if node_at f (D @ [p]) = Some Dir
            then (if node_at f (D @ [p, p]) = Some Dir then Inl (IOError ''EISDIR'')
                  else if write_protected env (node_at f (D @ [p, p])) then Inl (IOError ''EACCES'')
                  else Inr ((D @ [p, p], File c m) # f))
            else if write_protected env (node_at f (D @ [p])) then Inl (IOError ''EACCES'')
            else (case node_at f D of
                    None \<Rightarrow> Inl (IOError ''ENOENT'')
                  | Some (File c' m') \<Rightarrow> Inl (IOError ''ENOTDIR'')
                  | Some Dir \<Rightarrow> Inr ((D @ [p], File c m) # f)))"
proof -
  have rs: "resolve env (os_path_join src [p]) = Some (S @ [p])" by (rule resolve_join [OF p S])
  have rd: "resolve env (os_path_join dest [p]) = Some (D @ [p])" by (rule resolve_join [OF p D])
  have rdd: "resolve env (os_path_join (os_path_join dest [p]) [p]) = Some (D @ [p, p])"
    using resolve_join [OF p rd] by simp
  have bn: "os_path_basename (os_path_join src [p]) = p"
    by (rule basename_join [OF p resolve_nonempty [OF S]])
  have ne: "S \<noteq> D" "S \<noteq> D @ [p]" using dj by auto
  have bl: "butlast (D @ [p, p]) = D @ [p]" by (simp add: butlast_append)
  show ?thesis
    using rs rd rdd bn ne sf bl
    by (auto simp: copy_entry_def Let_def os_path_isdir_def lookup_def copy2_def write_file_def
             split: option.splits node.splits)
qed

lemma prefixes_dirs:
  assumes "\<forall>k. prefix k D \<longrightarrow> node_at f k = Some Dir"
  shows "filter (\<lambda>k. node_at f k = None) (prefixes D) = []"
    and "\<not> list_ex (\<lambda>k. is_file (node_at f k)) (prefixes D)"
  using assms by (auto simp: filter_empty_conv list_ex_iff is_file_def)

lemma copy_entry_dir:
  assumes p: "plain p" and S: "resolve env src = Some S" and D: "resolve env dest = Some D"
    and sd: "node_at f (S @ [p]) = Some Dir"
    and ok: "\<forall>k. prefix k D \<longrightarrow> node_at f k = Some Dir"
  shows "copy_entry env src dest p f =
           (if node_at f (D @ [p]) \<noteq> None then Inl (OSError ''EEXIST'')
            else Inr (map (\<lambda>(k, n). ((D @ [p]) @ drop (length (S @ [p])) k, n))
                        (filter (\<lambda>(k, n). strict_prefix (S @ [p]) k) f)
                      @ (D @ [p], Dir) # f))"
proof -
  have rs: "resolve env (os_path_join src [p]) = Some (S @ [p])" by (rule resolve_join [OF p S])
  have rd: "resolve env (os_path_join dest [p]) = Some (D @ [p])" by (rule resolve_join [OF p D])
  have ls: "os_listdir env (os_path_join src [p]) f = Inr (children f (S @ [p]))"
    using rs sd by (simp add: os_listdir_def)
  have mk: "os_makedirs env (os_path_join dest [p]) f =
              (if node_at f (D @ [p]) \<noteq> None then Inl (OSError ''EEXIST'')
               else Inr ((D @ [p], Dir) # f))"
    using rd prefixes_dirs [OF ok]
    by (auto simp: os_makedirs_def is_file_def)
  show ?thesis
    using rs rd ls mk sd
    by (simp add: copy_entry_def Let_def os_path_isdir_def lookup_def copytree_def)
qed


lemma node_at_frame:
  assumes "f' = new @ f" "\<forall>(k, n)\<in>set new. P k" "\<not> P k'"
  shows "node_at f' k' = node_at f k'"
proof -
  have "k' \<notin> fst ` set new" using assms(2,3) by auto
  then have "map_of new k' = None" by (simp only: map_of_eq_None_iff not_False_eq_True)
  then show ?thesis using assms(1) by (simp add: node_at_def map_add_def)
qed

lemma children_frame:
  assumes "f' = new @ f" "\<forall>(k, n)\<in>set new. P k" "\<forall>k. P k \<longrightarrow> k = [] \<or> butlast k \<noteq> q"
  shows "children f' q = children f q"
proof -
  have "filter (\<lambda>(k, n). k \<noteq> [] \<and> butlast k = q) new = []"
    using assms(2,3) by (auto simp: filter_empty_conv)
  then show ?thesis using assms(1) by (simp add: children_def)
qed

lemma copy_entry_missing:
  assumes "plain p" "resolve env src = Some S" "node_at f (S @ [p]) = None"
  shows "copy_entry env src dest p f = Inl (IOError ''ENOENT'')"
  using resolve_join [OF assms(1,2)] assms(3)
  by (simp add: copy_entry_def Let_def os_path_isdir_def lookup_def copy2_def)

lemma copy_entry_Inr:
  assumes p: "plain p" and S: "resolve env src = Some S" and D: "resolve env dest = Some D"
    and dj: "\<not> prefix S D" "\<not> prefix D S"
    and ok: "\<forall>k. prefix k D \<longrightarrow> node_at f k = Some Dir"
    and st: "copy_entry env src dest p f = Inr f'"
  shows "\<exists>new. f' = new @ f \<and> (\<forall>(k, n)\<in>set new. prefix (D @ [p]) k)"
    and "node_at f (S @ [p]) \<noteq> None"
    and "node_at f (S @ [p]) = Some (File c m) \<Longrightarrow>
           node_at f' (D @ [p]) = Some (File c m)
           \<or> node_at f' (D @ [p]) = Some Dir \<and> node_at f' (D @ [p, p]) = Some (File c m)"
    and "node_at f (S @ [p]) = Some Dir \<Longrightarrow>
           node_at f (D @ [p]) = None \<and> node_at f' (D @ [p]) = Some Dir"
proof -
  show ex: "node_at f (S @ [p]) \<noteq> None"
  proof
    assume "node_at f (S @ [p]) = None"
    from copy_entry_missing [OF p S this, of dest] st show False by simp
  qed
  show "\<exists>new. f' = new @ f \<and> (\<forall>(k, n)\<in>set new. prefix (D @ [p]) k)"
  proof (cases "node_at f (S @ [p])")
    case None
    then show ?thesis using ex by simp
  next
    case (Some x)
    show ?thesis
    proof (cases x)
      case (File c m)
      then have "f' = (D @ [p, p], File c m) # f \<or> f' = (D @ [p], File c m) # f"
        using copy_entry_file [OF p S D dj, of f c m] Some st
        by (auto split: if_splits option.splits node.splits)
      then show ?thesis
      proof
        assume "f' = (D @ [p, p], File c m) # f"
        then have "f' = [(D @ [p, p], File c m)] @ f
                   \<and> (\<forall>(k, n)\<in>set [(D @ [p, p], File c m)]. prefix (D @ [p]) k)"
          by (simp add: prefix_def)
        then show ?thesis by blast
      next
        assume "f' = (D @ [p], File c m) # f"
        then have "f' = [(D @ [p], File c m)] @ f
                   \<and> (\<forall>(k, n)\<in>set [(D @ [p], File c m)]. prefix (D @ [p]) k)"
          by simp
        then show ?thesis by blast
      qed
    next
      case Dir
      let ?g = "map (\<lambda>(k, n). ((D @ [p]) @ drop (length (S @ [p])) k, n))
                        (filter (\<lambda>(k, n). strict_prefix (S @ [p]) k) f)"
      have "f' = (?g @ [(D @ [p], Dir)]) @ f"
        using copy_entry_dir [OF p S D _ ok] Some Dir st by (auto split: if_splits)
      moreover have "\<forall>(k, n)\<in>set (?g @ [(D @ [p], Dir)]). prefix (D @ [p]) k"
        by auto
      ultimately show ?thesis by blast
    qed
  qed
  show "node_at f' (D @ [p]) = Some (File c m)
           \<or> node_at f' (D @ [p]) = Some Dir \<and> node_at f' (D @ [p, p]) = Some (File c m)"
    if "node_at f (S @ [p]) = Some (File c m)"
    using copy_entry_file [OF p S D dj that] st
    by (auto simp: node_at_Cons split: if_splits option.splits node.splits)
  show "node_at f (D @ [p]) = None \<and> node_at f' (D @ [p]) = Some Dir"
    if sd: "node_at f (S @ [p]) = Some Dir"
  proof -
    let ?g = "map (\<lambda>(k, n). ((D @ [p]) @ drop (length (S @ [p])) k, n))
                        (filter (\<lambda>(k, n). strict_prefix (S @ [p]) k) f)"
    have n: "node_at f (D @ [p]) = None" and f': "f' = ?g @ (D @ [p], Dir) # f"
      using copy_entry_dir [OF p S D sd ok] st by (auto split: if_splits)
    have "\<forall>(k, n)\<in>set ?g. strict_prefix (D @ [p]) k"
      by (auto simp: strict_prefix_def prefix_def)
    then have "node_at f' (D @ [p]) = node_at ((D @ [p], Dir) # f) (D @ [p])"
      using node_at_frame [OF f', of "strict_prefix (D @ [p])" "D @ [p]"] by simp
    then show ?thesis using n by (simp add: node_at_Cons)
  qed
qed

subsection \<open>The loop, a first and a second time\<close>

lemma np_src:
  assumes "\<not> prefix S D" "\<not> prefix D S"
  shows "\<not> prefix (D @ [q]) (S @ [p])" and "\<not> prefix (D @ [q]) S"
proof -
  show "\<not> prefix (D @ [q]) S" using assms(2) append_prefixD by blast
  then show "\<not> prefix (D @ [q]) (S @ [p])" using assms(1) by auto
qed

lemma np_other:
  assumes "q \<noteq> p"
  shows "\<not> prefix (D @ [q]) (D @ [p])" and "\<not> prefix (D @ [q]) (D @ [p, p])"
  using assms by (auto simp: prefix_def Cons_eq_append_conv)

lemma np_above: "prefix k D \<Longrightarrow> \<not> prefix (D @ [q]) k"
proof
  assume "prefix k D" "prefix (D @ [q]) k"
  then have "prefix (D @ [q]) D" by (meson prefix_order.trans)
  then have "length (D @ [q]) \<le> length D" by (rule prefix_length_le)
  then show False by simp
qed

lemma copy_entries_Inr:
  assumes S: "resolve env src = Some S" and D: "resolve env dest = Some D"
    and dj: "\<not> prefix S D" "\<not> prefix D S"
    and dist: "distinct names" and pl: "\<forall>p\<in>set names. plain p"
    and ok: "\<forall>k. prefix k D \<longrightarrow> node_at (fs w) k = Some Dir"
    and run: "copy_entries env src dest names w = (Inr (), w')"
  shows "(\<exists>new. fs w' = new @ fs w \<and> (\<forall>(k, n)\<in>set new. \<exists>p\<in>set names. prefix (D @ [p]) k))
       \<and> (\<forall>p\<in>set names.
            node_at (fs w) (S @ [p]) \<noteq> None
          \<and> (\<forall>c m. node_at (fs w) (S @ [p]) = Some (File c m) \<longrightarrow>
                node_at (fs w') (D @ [p]) = Some (File c m)
                \<or> node_at (fs w') (D @ [p]) = Some Dir
                  \<and> node_at (fs w') (D @ [p, p]) = Some (File c m))
          \<and> (node_at (fs w) (S @ [p]) = Some Dir \<longrightarrow>
                node_at (fs w) (D @ [p]) = None \<and> node_at (fs w') (D @ [p]) = Some Dir))"
  using dist pl ok run
proof (induction names arbitrary: w)
  case Nil
  then show ?case by simp
next
  case (Cons p ps)
  from Cons.prems(4) obtain f1 where st: "copy_entry env src dest p (fs w) = Inr f1"
    and rest: "copy_entries env src dest ps (w\<lparr>fs := f1\<rparr>) = (Inr (), w')"
    by (auto split: sum.splits)
  have pp: "plain p" and pps: "\<forall>q\<in>set ps. plain q" using Cons.prems(2) by auto
  have dps: "distinct ps" and pn: "p \<notin> set ps" using Cons.prems(1) by auto
  note step = copy_entry_Inr [OF pp S D dj Cons.prems(3) st]
  from step(1) obtain new1 where n1: "f1 = new1 @ fs w"
    and k1: "\<forall>(k, n)\<in>set new1. prefix (D @ [p]) k" by (elim exE conjE)
  have fr1: "node_at f1 k' = node_at (fs w) k'" if "\<not> prefix (D @ [p]) k'" for k'
    using node_at_frame [OF n1 k1 that] .
  have ok1: "\<forall>k. prefix k D \<longrightarrow> node_at (fs (w\<lparr>fs := f1\<rparr>)) k = Some Dir"
  proof (intro allI impI)
    fix k assume k: "prefix k D"
    have "node_at f1 k = node_at (fs w) k" by (rule fr1 [OF np_above [OF k]])
    then show "node_at (fs (w\<lparr>fs := f1\<rparr>)) k = Some Dir" using Cons.prems(3) k by simp
  qed
  note IH = Cons.IH [OF dps pps ok1 rest]
  have "\<exists>new. fs w' = new @ f1 \<and> (\<forall>(k, n)\<in>set new. \<exists>q\<in>set ps. prefix (D @ [q]) k)"
    using IH [THEN conjunct1] by simp
  then obtain new2 where n2: "fs w' = new2 @ f1"
    and k2: "\<forall>(k, n)\<in>set new2. \<exists>q\<in>set ps. prefix (D @ [q]) k" by (elim exE conjE)
  have fr2: "node_at (fs w') k' = node_at f1 k'" if "\<not> (\<exists>q\<in>set ps. prefix (D @ [q]) k')" for k'
    using node_at_frame [OF n2 k2 that] .
  have src1: "node_at f1 (S @ [q]) = node_at (fs w) (S @ [q])" for q
    by (rule fr1 [OF np_src(1) [OF dj]])
  have A: "\<exists>new. fs w' = new @ fs w \<and> (\<forall>(k, n)\<in>set new. \<exists>q\<in>set (p # ps). prefix (D @ [q]) k)"
  proof -
    have e: "fs w' = (new2 @ new1) @ fs w" using n1 n2 by simp
    have a1: "\<exists>q\<in>set (p # ps). prefix (D @ [q]) k" if "(k, n) \<in> set new1" for k n
    proof -
      from k1 that have "prefix (D @ [p]) k" by blast
      then show ?thesis by simp
    qed
    have a2: "\<exists>q\<in>set (p # ps). prefix (D @ [q]) k" if "(k, n) \<in> set new2" for k n
    proof -
      from k2 that obtain q where "q \<in> set ps" "prefix (D @ [q]) k" by blast
      then show ?thesis by auto
    qed
    have "\<forall>(k, n)\<in>set (new2 @ new1). \<exists>q\<in>set (p # ps). prefix (D @ [q]) k"
    proof (intro ballI)
      fix x assume x: "x \<in> set (new2 @ new1)"
      obtain k n where kn: "x = (k, n)" by (cases x)
      with x have "(k, n) \<in> set new1 \<or> (k, n) \<in> set new2" by auto
      then have "\<exists>q\<in>set (p # ps). prefix (D @ [q]) k" using a1 a2 by blast
      then show "case x of (k, n) \<Rightarrow> \<exists>q\<in>set (p # ps). prefix (D @ [q]) k" using kn by simp
    qed
    with e show ?thesis by blast
  qed
  have away: "\<not> (\<exists>q\<in>set ps. prefix (D @ [q]) (D @ [p]))"
             "\<not> (\<exists>q\<in>set ps. prefix (D @ [q]) (D @ [p, p]))"
  proof -
    have "\<not> prefix (D @ [q]) (D @ [p]) \<and> \<not> prefix (D @ [q]) (D @ [p, p])" if "q \<in> set ps" for q
    proof -
      from that pn have "q \<noteq> p" by auto
      then show ?thesis using np_other [of q p D] by simp
    qed
    then show "\<not> (\<exists>q\<in>set ps. prefix (D @ [q]) (D @ [p]))"
              "\<not> (\<exists>q\<in>set ps. prefix (D @ [q]) (D @ [p, p]))" by blast+
  qed
  have keep1: "node_at (fs w') (D @ [p]) = node_at f1 (D @ [p])" by (rule fr2 [OF away(1)])
  have keep2: "node_at (fs w') (D @ [p, p]) = node_at f1 (D @ [p, p])" by (rule fr2 [OF away(2)])
  have s3: "\<forall>c m. node_at (fs w) (S @ [p]) = Some (File c m) \<longrightarrow>
                node_at f1 (D @ [p]) = Some (File c m)
                \<or> node_at f1 (D @ [p]) = Some Dir \<and> node_at f1 (D @ [p, p]) = Some (File c m)"
    using step(3) by blast
  have s4: "node_at (fs w) (S @ [p]) = Some Dir \<longrightarrow>
                node_at (fs w) (D @ [p]) = None \<and> node_at f1 (D @ [p]) = Some Dir"
    using step(4) by blast
  have B: "node_at (fs w) (S @ [p]) \<noteq> None
          \<and> (\<forall>c m. node_at (fs w) (S @ [p]) = Some (File c m) \<longrightarrow>
                node_at (fs w') (D @ [p]) = Some (File c m)
                \<or> node_at (fs w') (D @ [p]) = Some Dir
                  \<and> node_at (fs w') (D @ [p, p]) = Some (File c m))
          \<and> (node_at (fs w) (S @ [p]) = Some Dir \<longrightarrow>
                node_at (fs w) (D @ [p]) = None \<and> node_at (fs w') (D @ [p]) = Some Dir)"
    unfolding keep1 keep2 using step(2) s3 s4 by (intro conjI)
  have C: "node_at (fs w) (S @ [q]) \<noteq> None
          \<and> (\<forall>c m. node_at (fs w) (S @ [q]) = Some (File c m) \<longrightarrow>
                node_at (fs w') (D @ [q]) = Some (File c m)
                \<or> node_at (fs w') (D @ [q]) = Some Dir
                  \<and> node_at (fs w') (D @ [q, q]) = Some (File c m))
          \<and> (node_at (fs w) (S @ [q]) = Some Dir \<longrightarrow>
                node_at (fs w) (D @ [q]) = None \<and> node_at (fs w') (D @ [q]) = Some Dir)"
    if q: "q \<in> set ps" for q
  proof -
    have "q \<noteq> p" using q pn by auto
    then have "\<not> prefix (D @ [p]) (D @ [q])" using np_other(1) [of p q D] by simp
    then have dq: "node_at f1 (D @ [q]) = node_at (fs w) (D @ [q])" by (rule fr1)
    have sq: "node_at f1 (S @ [q]) = node_at (fs w) (S @ [q])" by (rule src1)
    have f1: "fs (w\<lparr>fs := f1\<rparr>) = f1" by simp
    from IH have "\<forall>p\<in>set ps.
            node_at f1 (S @ [p]) \<noteq> None
          \<and> (\<forall>c m. node_at f1 (S @ [p]) = Some (File c m) \<longrightarrow>
                node_at (fs w') (D @ [p]) = Some (File c m)
                \<or> node_at (fs w') (D @ [p]) = Some Dir
                  \<and> node_at (fs w') (D @ [p, p]) = Some (File c m))
          \<and> (node_at f1 (S @ [p]) = Some Dir \<longrightarrow>
                node_at f1 (D @ [p]) = None \<and> node_at (fs w') (D @ [p]) = Some Dir)"
      unfolding f1 by (rule conjunct2)
    from bspec [OF this q] show ?thesis unfolding dq sq .
  qed
  have "\<forall>q\<in>set (p # ps). node_at (fs w) (S @ [q]) \<noteq> None
          \<and> (\<forall>c m. node_at (fs w) (S @ [q]) = Some (File c m) \<longrightarrow>
                node_at (fs w') (D @ [q]) = Some (File c m)
                \<or> node_at (fs w') (D @ [q]) = Some Dir
                  \<and> node_at (fs w') (D @ [q, q]) = Some (File c m))
          \<and> (node_at (fs w) (S @ [q]) = Some Dir \<longrightarrow>
                node_at (fs w) (D @ [q]) = None \<and> node_at (fs w') (D @ [q]) = Some Dir)"
  proof
    fix q assume "q \<in> set (p # ps)"
    then have "q = p \<or> q \<in> set ps" by auto
    then show "node_at (fs w) (S @ [q]) \<noteq> None
          \<and> (\<forall>c m. node_at (fs w) (S @ [q]) = Some (File c m) \<longrightarrow>
                node_at (fs w') (D @ [q]) = Some (File c m)
                \<or> node_at (fs w') (D @ [q]) = Some Dir
                  \<and> node_at (fs w') (D @ [q, q]) = Some (File c m))
          \<and> (node_at (fs w) (S @ [q]) = Some Dir \<longrightarrow>
                node_at (fs w) (D @ [q]) = None \<and> node_at (fs w') (D @ [q]) = Some Dir)"
    proof
      assume "q = p"
      then show ?thesis using B by simp
    next
      assume "q \<in> set ps"
      then show ?thesis by (rule C)
    qed
  qed
  with A show ?case by (rule conjI)
qed

lemma copy_entry_file_ok:
  assumes p: "plain p" and S: "resolve env src = Some S" and D: "resolve env dest = Some D"
    and dj: "\<not> prefix S D" "\<not> prefix D S"
    and ok: "\<forall>k. prefix k D \<longrightarrow> node_at f k = Some Dir"
    and sf: "node_at f (S @ [p]) = Some (File c m)"
    and wr: "may_write env m"
    and en: "node_at f (D @ [p]) = Some (File c m)
             \<or> node_at f (D @ [p]) = Some Dir \<and> node_at f (D @ [p, p]) = Some (File c m)"
  shows "\<exists>f'. copy_entry env src dest p f = Inr f'"
proof -
  have "node_at f D = Some Dir" using ok by simp
  then show ?thesis using copy_entry_file [OF p S D dj sf] en wr
    by (auto simp: write_protected_def)
qed

lemma copy_entries_again:
  assumes S: "resolve env src = Some S" and D: "resolve env dest = Some D"
    and dj: "\<not> prefix S D" "\<not> prefix D S"
    and dist: "distinct names" and pl: "\<forall>p\<in>set names. plain p"
    and ok: "\<forall>k. prefix k D \<longrightarrow> node_at (fs w) k = Some Dir"
    and files: "\<forall>p\<in>set names. \<exists>c m. node_at (fs w) (S @ [p]) = Some (File c m) \<and> may_write env m
                  \<and> (node_at (fs w) (D @ [p]) = Some (File c m)
                     \<or> node_at (fs w) (D @ [p]) = Some Dir
                       \<and> node_at (fs w) (D @ [p, p]) = Some (File c m))"
  shows "\<exists>w'. copy_entries env src dest names w = (Inr (), w')"
  using dist pl ok files
proof (induction names arbitrary: w)
  case Nil
  then show ?case by simp
next
  case (Cons p ps)
  have pp: "plain p" and pps: "\<forall>q\<in>set ps. plain q" using Cons.prems(2) by auto
  have dps: "distinct ps" and pn: "p \<notin> set ps" using Cons.prems(1) by auto
  from Cons.prems(4) obtain c m where sf: "node_at (fs w) (S @ [p]) = Some (File c m)"
    and wr: "may_write env m"
    and en: "node_at (fs w) (D @ [p]) = Some (File c m)
             \<or> node_at (fs w) (D @ [p]) = Some Dir \<and> node_at (fs w) (D @ [p, p]) = Some (File c m)"
    by auto
  from copy_entry_file_ok [OF pp S D dj Cons.prems(3) sf wr en]
  obtain f1 where st: "copy_entry env src dest p (fs w) = Inr f1" by (elim exE)
  from copy_entry_Inr(1) [OF pp S D dj Cons.prems(3) st]
  obtain new1 where n1: "f1 = new1 @ fs w"
    and k1: "\<forall>(k, n)\<in>set new1. prefix (D @ [p]) k" by (elim exE conjE)
  have fr1: "node_at f1 k' = node_at (fs w) k'" if "\<not> prefix (D @ [p]) k'" for k'
    using node_at_frame [OF n1 k1 that] .
  have ok1: "\<forall>k. prefix k D \<longrightarrow> node_at (fs (w\<lparr>fs := f1\<rparr>)) k = Some Dir"
  proof (intro allI impI)
    fix k assume k: "prefix k D"
    have "node_at f1 k = node_at (fs w) k" by (rule fr1 [OF np_above [OF k]])
    then show "node_at (fs (w\<lparr>fs := f1\<rparr>)) k = Some Dir" using Cons.prems(3) k by simp
  qed
  have files1: "\<forall>q\<in>set ps. \<exists>c m. node_at (fs (w\<lparr>fs := f1\<rparr>)) (S @ [q]) = Some (File c m)
                  \<and> may_write env m
                  \<and> (node_at (fs (w\<lparr>fs := f1\<rparr>)) (D @ [q]) = Some (File c m)
                     \<or> node_at (fs (w\<lparr>fs := f1\<rparr>)) (D @ [q]) = Some Dir
                       \<and> node_at (fs (w\<lparr>fs := f1\<rparr>)) (D @ [q, q]) = Some (File c m))"
  proof
    fix q assume q: "q \<in> set ps"
    then have "p \<noteq> q" using pn by auto
    then have a: "node_at f1 (D @ [q]) = node_at (fs w) (D @ [q])"
                 "node_at f1 (D @ [q, q]) = node_at (fs w) (D @ [q, q])"
      using fr1 [OF np_other(1) [of p q D]] fr1 [OF np_other(2) [of p q D]] by auto
    have b: "node_at f1 (S @ [q]) = node_at (fs w) (S @ [q])"
      by (rule fr1 [OF np_src(1) [OF dj]])
    from Cons.prems(4) q have "\<exists>c m. node_at (fs w) (S @ [q]) = Some (File c m) \<and> may_write env m
                  \<and> (node_at (fs w) (D @ [q]) = Some (File c m)
                     \<or> node_at (fs w) (D @ [q]) = Some Dir
                       \<and> node_at (fs w) (D @ [q, q]) = Some (File c m))"
      by simp
    then show "\<exists>c m. node_at (fs (w\<lparr>fs := f1\<rparr>)) (S @ [q]) = Some (File c m)
                  \<and> may_write env m
                  \<and> (node_at (fs (w\<lparr>fs := f1\<rparr>)) (D @ [q]) = Some (File c m)
                     \<or> node_at (fs (w\<lparr>fs := f1\<rparr>)) (D @ [q]) = Some Dir
                       \<and> node_at (fs (w\<lparr>fs := f1\<rparr>)) (D @ [q, q]) = Some (File c m))"
      using a b by simp
  qed
  from Cons.IH [OF dps pps ok1 files1] obtain w' where
    "copy_entries env src dest ps (w\<lparr>fs := f1\<rparr>) = (Inr (), w')" by (elim exE)
  then have "copy_entries env src dest (p # ps) w = (Inr (), w')" using st by simp
  then show ?case by (rule exI)
qed

lemma copy_entries_append:
  "copy_entries env src dest (xs @ ys) w =
     (case copy_entries env src dest xs w of
        (Inl e, w') \<Rightarrow> (Inl e, w')
      | (Inr u, w') \<Rightarrow> copy_entries env src dest ys w')"
  by (induction xs arbitrary: w) (auto split: sum.splits)

lemma copy_entry_file_protected:
  assumes p: "plain p" and S: "resolve env src = Some S" and D: "resolve env dest = Some D"
    and dj: "\<not> prefix S D" "\<not> prefix D S"
    and sf: "node_at f (S @ [p]) = Some (File c m)"
    and wr: "\<not> may_write env m"
    and en: "node_at f (D @ [p]) = Some (File c m)
             \<or> node_at f (D @ [p]) = Some Dir \<and> node_at f (D @ [p, p]) = Some (File c m)"
  shows "copy_entry env src dest p f = Inl (IOError ''EACCES'')"
  using copy_entry_file [OF p S D dj sf] en wr
  by (auto simp: write_protected_def)

lemma copy_entries_pre:
  assumes S: "resolve env src = Some S" and D: "resolve env dest = Some D"
    and dj: "\<not> prefix S D" "\<not> prefix D S"
    and dist: "distinct (pre @ d # post)" and pl: "\<forall>p\<in>set (pre @ d # post). plain p"
    and ok: "\<forall>k. prefix k D \<longrightarrow> node_at (fs w) k = Some Dir"
    and files: "\<forall>p\<in>set pre. \<exists>c m. node_at (fs w) (S @ [p]) = Some (File c m) \<and> may_write env m
                  \<and> (node_at (fs w) (D @ [p]) = Some (File c m)
                     \<or> node_at (fs w) (D @ [p]) = Some Dir
                       \<and> node_at (fs w) (D @ [p, p]) = Some (File c m))"
  shows "\<exists>w1. copy_entries env src dest pre w = (Inr (), w1)
           \<and> node_at (fs w1) (S @ [d]) = node_at (fs w) (S @ [d])
           \<and> node_at (fs w1) (D @ [d]) = node_at (fs w) (D @ [d])
           \<and> node_at (fs w1) (D @ [d, d]) = node_at (fs w) (D @ [d, d])
           \<and> (\<forall>k. prefix k D \<longrightarrow> node_at (fs w1) k = Some Dir)"
proof -
  have dpre: "distinct pre" and dn: "d \<notin> set pre" using dist by auto
  have ppre: "\<forall>p\<in>set pre. plain p" using pl by auto
  from copy_entries_again [OF S D dj dpre ppre ok files]
  obtain w1 where r1: "copy_entries env src dest pre w = (Inr (), w1)" by (elim exE)
  from copy_entries_Inr [OF S D dj dpre ppre ok r1, THEN conjunct1]
  obtain new where n: "fs w1 = new @ fs w"
    and k: "\<forall>(k, n)\<in>set new. \<exists>p\<in>set pre. prefix (D @ [p]) k" by (elim exE conjE)
  have fr: "node_at (fs w1) k' = node_at (fs w) k'" if "\<not> (\<exists>p\<in>set pre. prefix (D @ [p]) k')" for k'
    using node_at_frame [OF n k that] .
  have a1: "\<not> (\<exists>p\<in>set pre. prefix (D @ [p]) (S @ [d]))" using np_src(1) [OF dj] by blast
  have a2: "\<not> (\<exists>p\<in>set pre. prefix (D @ [p]) (D @ [d]))"
  proof
    assume "\<exists>p\<in>set pre. prefix (D @ [p]) (D @ [d])"
    then obtain p where "p \<in> set pre" "prefix (D @ [p]) (D @ [d])" by (elim bexE)
    moreover from this(1) dn have "p \<noteq> d" by auto
    ultimately show False using np_other(1) [of p d D] by simp
  qed
  have a3: "\<not> (\<exists>p\<in>set pre. prefix (D @ [p]) (D @ [d, d]))"
  proof
    assume "\<exists>p\<in>set pre. prefix (D @ [p]) (D @ [d, d])"
    then obtain p where "p \<in> set pre" "prefix (D @ [p]) (D @ [d, d])" by (elim bexE)
    moreover from this(1) dn have "p \<noteq> d" by auto
    ultimately show False using np_other(2) [of p d D] by simp
  qed
  have ok1: "\<forall>k. prefix k D \<longrightarrow> node_at (fs w1) k = Some Dir"
  proof (intro allI impI)
    fix k assume kk: "prefix k D"
    have "\<not> (\<exists>p\<in>set pre. prefix (D @ [p]) k)" using np_above [OF kk] by blast
    from fr [OF this] show "node_at (fs w1) k = Some Dir" using ok kk by simp
  qed
  show ?thesis
  proof (rule exI [of _ w1], intro conjI)
    show "copy_entries env src dest pre w = (Inr (), w1)" by (rule r1)
    show "node_at (fs w1) (S @ [d]) = node_at (fs w) (S @ [d])" by (rule fr [OF a1])
    show "node_at (fs w1) (D @ [d]) = node_at (fs w) (D @ [d])" by (rule fr [OF a2])
    show "node_at (fs w1) (D @ [d, d]) = node_at (fs w) (D @ [d, d])" by (rule fr [OF a3])
    show "\<forall>k. prefix k D \<longrightarrow> node_at (fs w1) k = Some Dir" by (rule ok1)
  qed
qed

lemma copy_entries_collision:
  assumes S: "resolve env src = Some S" and D: "resolve env dest = Some D"
    and dj: "\<not> prefix S D" "\<not> prefix D S"
    and dist: "distinct (pre @ d # post)" and pl: "\<forall>p\<in>set (pre @ d # post). plain p"
    and ok: "\<forall>k. prefix k D \<longrightarrow> node_at (fs w) k = Some Dir"
    and files: "\<forall>p\<in>set pre. \<exists>c m. node_at (fs w) (S @ [p]) = Some (File c m) \<and> may_write env m
                  \<and> (node_at (fs w) (D @ [p]) = Some (File c m)
                     \<or> node_at (fs w) (D @ [p]) = Some Dir
                       \<and> node_at (fs w) (D @ [p, p]) = Some (File c m))"
    and sd: "node_at (fs w) (S @ [d]) = Some Dir"
    and dd: "node_at (fs w) (D @ [d]) \<noteq> None"
  shows "\<exists>w'. copy_entries env src dest (pre @ d # post) w = (Inl (OSError ''EEXIST''), w')"
proof -
  have pd: "plain d" using pl by auto
  from copy_entries_pre [OF S D dj dist pl ok files]
  obtain w1 where r1: "copy_entries env src dest pre w = (Inr (), w1)"
    and s1: "node_at (fs w1) (S @ [d]) = node_at (fs w) (S @ [d])"
    and d1: "node_at (fs w1) (D @ [d]) = node_at (fs w) (D @ [d])"
    and ok1: "\<forall>k. prefix k D \<longrightarrow> node_at (fs w1) k = Some Dir" by (elim exE conjE)
  have sd1: "node_at (fs w1) (S @ [d]) = Some Dir" using s1 sd by simp
  have dd1: "node_at (fs w1) (D @ [d]) \<noteq> None" using d1 dd by simp
  have "copy_entry env src dest d (fs w1) = Inl (OSError ''EEXIST'')"
    using copy_entry_dir [OF pd S D sd1 ok1] dd1 by simp
  then have "copy_entries env src dest (pre @ d # post) w = (Inl (OSError ''EEXIST''), w1)"
    using r1 by (simp add: copy_entries_append)
  then show ?thesis by (rule exI)
qed

lemma copy_entries_protected:
  assumes S: "resolve env src = Some S" and D: "resolve env dest = Some D"
    and dj: "\<not> prefix S D" "\<not> prefix D S"
    and dist: "distinct (pre @ d # post)" and pl: "\<forall>p\<in>set (pre @ d # post). plain p"
    and ok: "\<forall>k. prefix k D \<longrightarrow> node_at (fs w) k = Some Dir"
    and files: "\<forall>p\<in>set pre. \<exists>c m. node_at (fs w) (S @ [p]) = Some (File c m) \<and> may_write env m
                  \<and> (node_at (fs w) (D @ [p]) = Some (File c m)
                     \<or> node_at (fs w) (D @ [p]) = Some Dir
                       \<and> node_at (fs w) (D @ [p, p]) = Some (File c m))"
    and sf: "node_at (fs w) (S @ [d]) = Some (File c m)"
    and wr: "\<not> may_write env m"
    and en: "node_at (fs w) (D @ [d]) = Some (File c m)
             \<or> node_at (fs w) (D @ [d]) = Some Dir \<and> node_at (fs w) (D @ [d, d]) = Some (File c m)"
  shows "\<exists>w'. copy_entries env src dest (pre @ d # post) w = (Inl (IOError ''EACCES''), w')"
proof -
  have pd: "plain d" using pl by auto
  from copy_entries_pre [OF S D dj dist pl ok files]
  obtain w1 where r1: "copy_entries env src dest pre w = (Inr (), w1)"
    and s1: "node_at (fs w1) (S @ [d]) = node_at (fs w) (S @ [d])"
    and d1: "node_at (fs w1) (D @ [d]) = node_at (fs w) (D @ [d])"
    and d2: "node_at (fs w1) (D @ [d, d]) = node_at (fs w) (D @ [d, d])" by (elim exE conjE)
  have sf1: "node_at (fs w1) (S @ [d]) = Some (File c m)" using s1 sf by simp
  have en1: "node_at (fs w1) (D @ [d]) = Some (File c m)
             \<or> node_at (fs w1) (D @ [d]) = Some Dir \<and> node_at (fs w1) (D @ [d, d]) = Some (File c m)"
    using en unfolding d1 d2 .
  have "copy_entry env src dest d (fs w1) = Inl (IOError ''EACCES'')"
    by (rule copy_entry_file_protected [OF pd S D dj sf1 wr en1])
  then have "copy_entries env src dest (pre @ d # post) w = (Inl (IOError ''EACCES''), w1)"
    using r1 by (simp add: copy_entries_append)
  then show ?thesis by (rule exI)
qed

lemma under_butlast:
  assumes "prefix (D @ [p]) k"
  shows "prefix D (butlast k)"
proof -
  from assms obtain r where "k = (D @ [p]) @ r" by (auto simp: prefix_def)
  then have "butlast k = D @ butlast (p # r)" by (simp add: butlast_append)
  then show ?thesis by simp
qed

lemma copy_entries_twice:
  assumes S: "resolve env src = Some S" and D: "resolve env dest = Some D"
    and dj: "\<not> prefix S D" "\<not> prefix D S"
    and dist: "distinct names" and pl: "\<forall>p\<in>set names. plain p"
    and ok: "\<forall>k. prefix k D \<longrightarrow> node_at (fs w0) k = Some Dir"
    and run: "copy_entries env src dest names w0 = (Inr (), w1)"
  shows "(if \<exists>p\<in>set names. node_at (fs w0) (S @ [p]) = Some Dir
                            \<or> write_protected env (node_at (fs w0) (S @ [p]))
          then \<exists>e w2. copy_entries env src dest names w1 = (Inl e, w2)
                 \<and> (e = OSError ''EEXIST'' \<and> (\<exists>p\<in>set names. node_at (fs w0) (S @ [p]) = Some Dir)
                    \<or> e = IOError ''EACCES''
                      \<and> (\<exists>p\<in>set names. write_protected env (node_at (fs w0) (S @ [p]))))
          else \<exists>w2. copy_entries env src dest names w1 = (Inr (), w2)
                 \<and> (\<forall>p\<in>set names. \<exists>c m. node_at (fs w2) (S @ [p]) = Some (File c m)
                        \<and> (node_at (fs w2) (D @ [p]) = Some (File c m)
                           \<or> node_at (fs w2) (D @ [p]) = Some Dir
                             \<and> node_at (fs w2) (D @ [p, p]) = Some (File c m))))"
proof -
  note L = copy_entries_Inr [OF S D dj dist pl ok run]
  from L [THEN conjunct1] obtain new where n: "fs w1 = new @ fs w0"
    and k: "\<forall>(k, n)\<in>set new. \<exists>p\<in>set names. prefix (D @ [p]) k" by (elim exE conjE)
  have fr: "node_at (fs w1) k' = node_at (fs w0) k'" if "\<not> (\<exists>p\<in>set names. prefix (D @ [p]) k')" for k'
    using node_at_frame [OF n k that] .
  have src: "node_at (fs w1) (S @ [q]) = node_at (fs w0) (S @ [q])" for q
  proof -
    have "\<not> (\<exists>p\<in>set names. prefix (D @ [p]) (S @ [q]))" using np_src(1) [OF dj] by blast
    then show ?thesis by (rule fr)
  qed
  have ok1: "\<forall>k. prefix k D \<longrightarrow> node_at (fs w1) k = Some Dir"
  proof (intro allI impI)
    fix k assume kk: "prefix k D"
    have "\<not> (\<exists>p\<in>set names. prefix (D @ [p]) k)" using np_above [OF kk] by blast
    from fr [OF this] show "node_at (fs w1) k = Some Dir" using ok kk by simp
  qed
  have post: "node_at (fs w0) (S @ [p]) \<noteq> None
          \<and> (\<forall>c m. node_at (fs w0) (S @ [p]) = Some (File c m) \<longrightarrow>
                node_at (fs w1) (D @ [p]) = Some (File c m)
                \<or> node_at (fs w1) (D @ [p]) = Some Dir
                  \<and> node_at (fs w1) (D @ [p, p]) = Some (File c m))
          \<and> (node_at (fs w0) (S @ [p]) = Some Dir \<longrightarrow>
                node_at (fs w0) (D @ [p]) = None \<and> node_at (fs w1) (D @ [p]) = Some Dir)"
    if "p \<in> set names" for p
    using bspec [OF L [THEN conjunct2] that] .
  have there: "node_at (fs w1) (S @ [p]) = Some (File c m)
               \<and> (node_at (fs w1) (D @ [p]) = Some (File c m)
                  \<or> node_at (fs w1) (D @ [p]) = Some Dir
                    \<and> node_at (fs w1) (D @ [p, p]) = Some (File c m))"
    if p: "p \<in> set names" and f: "node_at (fs w0) (S @ [p]) = Some (File c m)" for p c m
  proof -
    from post [OF p] f have "node_at (fs w1) (D @ [p]) = Some (File c m)
                \<or> node_at (fs w1) (D @ [p]) = Some Dir
                  \<and> node_at (fs w1) (D @ [p, p]) = Some (File c m)" by blast
    moreover have "node_at (fs w1) (S @ [p]) = Some (File c m)" using src f by simp
    ultimately show ?thesis by (rule conjI [rotated])
  qed
  have enabled: "\<exists>c m. node_at (fs w1) (S @ [p]) = Some (File c m) \<and> may_write env m
                  \<and> (node_at (fs w1) (D @ [p]) = Some (File c m)
                     \<or> node_at (fs w1) (D @ [p]) = Some Dir
                       \<and> node_at (fs w1) (D @ [p, p]) = Some (File c m))"
    if p: "p \<in> set names"
      and nb: "\<not> (node_at (fs w0) (S @ [p]) = Some Dir
                  \<or> write_protected env (node_at (fs w0) (S @ [p])))" for p
  proof -
    from post [OF p] nb obtain c m where f: "node_at (fs w0) (S @ [p]) = Some (File c m)"
      by (cases "node_at (fs w0) (S @ [p])") (auto intro: node.exhaust)
    have w: "may_write env m" using nb f by (simp add: write_protected_def)
    from there [OF p f] w show ?thesis by blast
  qed
  show ?thesis
  proof (cases "\<exists>p\<in>set names. node_at (fs w0) (S @ [p]) = Some Dir
                            \<or> write_protected env (node_at (fs w0) (S @ [p]))")
    case True
    from split_list_first_prop [OF True] obtain pre d post' where
      sp: "names = pre @ d # post'"
      and bad: "node_at (fs w0) (S @ [d]) = Some Dir
                \<or> write_protected env (node_at (fs w0) (S @ [d]))"
      and nf: "\<forall>y\<in>set pre. \<not> (node_at (fs w0) (S @ [y]) = Some Dir
                \<or> write_protected env (node_at (fs w0) (S @ [y])))" by (elim exE conjE)
    have dn: "d \<in> set names" using sp by simp
    have files: "\<forall>p\<in>set pre. \<exists>c m. node_at (fs w1) (S @ [p]) = Some (File c m) \<and> may_write env m
                  \<and> (node_at (fs w1) (D @ [p]) = Some (File c m)
                     \<or> node_at (fs w1) (D @ [p]) = Some Dir
                       \<and> node_at (fs w1) (D @ [p, p]) = Some (File c m))"
    proof
      fix p assume pp: "p \<in> set pre"
      then have a: "p \<in> set names" using sp by simp
      have b: "\<not> (node_at (fs w0) (S @ [p]) = Some Dir
                \<or> write_protected env (node_at (fs w0) (S @ [p])))" using nf pp by (rule bspec)
      show "\<exists>c m. node_at (fs w1) (S @ [p]) = Some (File c m) \<and> may_write env m
                  \<and> (node_at (fs w1) (D @ [p]) = Some (File c m)
                     \<or> node_at (fs w1) (D @ [p]) = Some Dir
                       \<and> node_at (fs w1) (D @ [p, p]) = Some (File c m))"
        by (rule enabled [OF a b])
    qed
    have "\<exists>e w2. copy_entries env src dest names w1 = (Inl e, w2)
                 \<and> (e = OSError ''EEXIST'' \<and> (\<exists>p\<in>set names. node_at (fs w0) (S @ [p]) = Some Dir)
                    \<or> e = IOError ''EACCES''
                      \<and> (\<exists>p\<in>set names. write_protected env (node_at (fs w0) (S @ [p]))))"
    proof (cases "node_at (fs w0) (S @ [d]) = Some Dir")
      case dd: True
      have sd1: "node_at (fs w1) (S @ [d]) = Some Dir" using src dd by simp
      have dd1: "node_at (fs w1) (D @ [d]) \<noteq> None" using post [OF dn] dd by simp
      from copy_entries_collision [OF S D dj dist [unfolded sp] pl [unfolded sp] ok1 files sd1 dd1]
      obtain w2 where "copy_entries env src dest names w1 = (Inl (OSError ''EEXIST''), w2)"
        unfolding sp by (elim exE)
      moreover have "\<exists>p\<in>set names. node_at (fs w0) (S @ [p]) = Some Dir" using dn dd by (rule bexI [rotated])
      ultimately show ?thesis by blast
    next
      case False
      with bad have wp: "write_protected env (node_at (fs w0) (S @ [d]))" by simp
      then obtain c m where f: "node_at (fs w0) (S @ [d]) = Some (File c m)"
        and nw: "\<not> may_write env m"
        by (auto simp: write_protected_def split: option.splits node.splits)
      note t = there [OF dn f]
      from copy_entries_protected [OF S D dj dist [unfolded sp] pl [unfolded sp] ok1 files
             t [THEN conjunct1] nw t [THEN conjunct2]]
      obtain w2 where "copy_entries env src dest names w1 = (Inl (IOError ''EACCES''), w2)"
        unfolding sp by (elim exE)
      moreover have "\<exists>p\<in>set names. write_protected env (node_at (fs w0) (S @ [p]))"
        using dn wp by (rule bexI [rotated])
      ultimately show ?thesis by blast
    qed
    then show ?thesis using True by simp
  next
    case False
    have files: "\<forall>p\<in>set names. \<exists>c m. node_at (fs w1) (S @ [p]) = Some (File c m) \<and> may_write env m
                  \<and> (node_at (fs w1) (D @ [p]) = Some (File c m)
                     \<or> node_at (fs w1) (D @ [p]) = Some Dir
                       \<and> node_at (fs w1) (D @ [p, p]) = Some (File c m))"
    proof
      fix p assume p: "p \<in> set names"
      then have "\<not> (node_at (fs w0) (S @ [p]) = Some Dir
                \<or> write_protected env (node_at (fs w0) (S @ [p])))" using False by blast
      with p show "\<exists>c m. node_at (fs w1) (S @ [p]) = Some (File c m) \<and> may_write env m
                  \<and> (node_at (fs w1) (D @ [p]) = Some (File c m)
                     \<or> node_at (fs w1) (D @ [p]) = Some Dir
                       \<and> node_at (fs w1) (D @ [p, p]) = Some (File c m))"
        by (rule enabled)
    qed
    from copy_entries_again [OF S D dj dist pl ok1 files]
    obtain w2 where r2: "copy_entries env src dest names w1 = (Inr (), w2)" by (elim exE)
    note L2 = copy_entries_Inr [OF S D dj dist pl ok1 r2]
    from L2 [THEN conjunct1] obtain new2 where n2: "fs w2 = new2 @ fs w1"
      and k2: "\<forall>(k, n)\<in>set new2. \<exists>p\<in>set names. prefix (D @ [p]) k" by (elim exE conjE)
    have src2: "node_at (fs w2) (S @ [q]) = node_at (fs w1) (S @ [q])" for q
    proof -
      have "\<not> (\<exists>p\<in>set names. prefix (D @ [p]) (S @ [q]))" using np_src(1) [OF dj] by blast
      then show ?thesis by (rule node_at_frame [OF n2 k2])
    qed
    have "\<forall>p\<in>set names. \<exists>c m. node_at (fs w2) (S @ [p]) = Some (File c m)
                        \<and> (node_at (fs w2) (D @ [p]) = Some (File c m)
                           \<or> node_at (fs w2) (D @ [p]) = Some Dir
                             \<and> node_at (fs w2) (D @ [p, p]) = Some (File c m))"
    proof
      fix p assume p: "p \<in> set names"
      from bspec [OF files p] obtain c m where f: "node_at (fs w1) (S @ [p]) = Some (File c m)"
        by (elim conjE exE)
      from bspec [OF L2 [THEN conjunct2] p] f
      have "node_at (fs w2) (D @ [p]) = Some (File c m)
                           \<or> node_at (fs w2) (D @ [p]) = Some Dir
                             \<and> node_at (fs w2) (D @ [p, p]) = Some (File c m)" by blast
      moreover have "node_at (fs w2) (S @ [p]) = Some (File c m)" using src2 f by simp
      ultimately show "\<exists>c m. node_at (fs w2) (S @ [p]) = Some (File c m)
                        \<and> (node_at (fs w2) (D @ [p]) = Some (File c m)
                           \<or> node_at (fs w2) (D @ [p]) = Some Dir
                             \<and> node_at (fs w2) (D @ [p, p]) = Some (File c m))" by blast
    qed
    with r2 have "\<exists>w2. copy_entries env src dest names w1 = (Inr (), w2)
                 \<and> (\<forall>p\<in>set names. \<exists>c m. node_at (fs w2) (S @ [p]) = Some (File c m)
                        \<and> (node_at (fs w2) (D @ [p]) = Some (File c m)
                           \<or> node_at (fs w2) (D @ [p]) = Some Dir
                             \<and> node_at (fs w2) (D @ [p, p]) = Some (File c m)))" by blast
    then show ?thesis using False by simp
  qed
qed

subsection \<open>The whole of \<^verbatim>\<open>copy_helper\<close>\<close>

lemma node_at_Nil: "node_at f [] = Some Dir"
  by (simp add: node_at_def)

lemma wf_ancestors:
  assumes wf: "wf_fs f"
  shows "node_at f k \<noteq> None \<Longrightarrow> prefix k' k \<Longrightarrow> k' \<noteq> k \<Longrightarrow> node_at f k' = Some Dir"
proof (induction k rule: rev_induct)
  case Nil
  then show ?case by simp
next
  case (snoc x ks)
  from snoc.prems(1) obtain n where "map_of f (ks @ [x]) = Some n" by (auto simp: node_at_def)
  then have "(ks @ [x], n) \<in> set f" by (rule map_of_SomeD)
  from wf_fs_entry(3) [OF wf this] have d: "node_at f ks = Some Dir" by simp
  from snoc.prems(2,3) have "prefix k' ks" by auto
  show ?case
  proof (cases "k' = ks")
    case True
    then show ?thesis using d by simp
  next
    case False
    show ?thesis by (rule snoc.IH [OF _ \<open>prefix k' ks\<close> False]) (simp add: d)
  qed
qed

lemma children_plain:
  assumes "wf_fs f"
  shows "\<forall>n\<in>set (children f q). plain n"
proof
  fix n assume "n \<in> set (children f q)"
  then obtain k x where kx: "(k, x) \<in> set f" "k \<noteq> []" "n = last k"
    unfolding set_children by blast
  from wf_fs_entry(2) [OF assms kx(1)] kx(2,3) show "plain n"
    by (simp add: list_all_iff)
qed

lemma setup_dir_dest:
  assumes wf: "wf_fs (fs w)" and D: "resolve env dest = Some D" and ns: "\<not> prefix S D"
    and sd: "setup_dir env dest False w = (Inr (), w0)"
  shows "\<forall>k. prefix k D \<longrightarrow> node_at (fs w0) k = Some Dir"
    and "\<forall>k. k \<noteq> D \<longrightarrow> node_at (fs w0) k = node_at (fs w) k"
    and "children (fs w0) S = children (fs w) S"
proof -
  from setup_dir_cases [OF sd D]
  have c: "w0 = w \<and> node_at (fs w) D = Some Dir
           \<or> w0 = w\<lparr>fs := (D, Dir) # fs w\<rparr> \<and> node_at (fs w) D = None" by auto
  have bl: "D = [] \<or> butlast D \<noteq> S"
  proof (cases "D = []")
    case False
    then have "D = butlast D @ [last D]" by simp
    then have "prefix (butlast D) D" by (metis prefixI)
    then show ?thesis using ns by auto
  qed simp
  show "\<forall>k. k \<noteq> D \<longrightarrow> node_at (fs w0) k = node_at (fs w) k"
    using c by (auto simp: node_at_Cons node_at_Nil)
  show "children (fs w0) S = children (fs w) S"
    using c bl by (auto simp: children_def)
  show "\<forall>k. prefix k D \<longrightarrow> node_at (fs w0) k = Some Dir"
  proof (intro allI impI)
    fix k assume k: "prefix k D"
    from c show "node_at (fs w0) k = Some Dir"
    proof (elim disjE conjE)
      assume a: "w0 = w" "node_at (fs w) D = Some Dir"
      show ?thesis
      proof (cases "k = D")
        case True then show ?thesis using a by simp
      next
        case False
        have "node_at (fs w) D \<noteq> None" using a by simp
        from wf_ancestors [OF wf this k False] show ?thesis using a by simp
      qed
    next
      assume a: "w0 = w\<lparr>fs := (D, Dir) # fs w\<rparr>" "node_at (fs w) D = None"
      show ?thesis
      proof (cases "k = D")
        case True then show ?thesis using a by (simp add: node_at_Cons)
      next
        case False
        obtain f' where m: "os_mkdir env dest (fs w) = Inr f'"
          using sd a D by (auto simp: setup_dir_def os_path_isdir_def lookup_def os_path_exists_def
                              split: if_splits sum.splits)
        from os_mkdir_Inr [OF m] D have par: "node_at (fs w) (butlast D) = Some Dir" by auto
        have Dne: "D \<noteq> []" using a by (auto simp: node_at_def)
        from k False have pk: "prefix k (butlast D)"
          using Dne by (metis append_butlast_last_id prefix_snoc)
        have "node_at (fs w) k = Some Dir"
        proof (cases "k = butlast D")
          case True then show ?thesis using par by simp
        next
          case F: False
          have "node_at (fs w) (butlast D) \<noteq> None" using par by simp
          from wf_ancestors [OF wf this pk F] show ?thesis .
        qed
        then show ?thesis using a False by (simp add: node_at_Cons)
      qed
    qed
  qed
qed

lemma copy_helper_Inr:
  assumes wf: "wf_fs (fs w)"
    and S: "resolve env src = Some S" and D: "resolve env dest = Some D"
    and dj: "\<not> prefix S D" "\<not> prefix D S"
    and first: "copy_helper env (Some src) dest w = (Inr (), w1)"
  shows "\<exists>w0 names. os_listdir env src (fs w) = Inr names
           \<and> distinct names \<and> (\<forall>p\<in>set names. plain p)
           \<and> copy_entries env src dest names w0 = (Inr (), w1)
           \<and> (\<forall>k. prefix k D \<longrightarrow> node_at (fs w0) k = Some Dir)
           \<and> (\<forall>p. node_at (fs w0) (S @ [p]) = node_at (fs w) (S @ [p]))
           \<and> (\<forall>p. node_at (fs w0) (D @ [p]) = node_at (fs w) (D @ [p]))
           \<and> node_at (fs w0) S = Some Dir
           \<and> children (fs w0) S = names"
proof -
  from first have isd: "os_path_isdir env src (fs w)"
    by (auto simp: copy_helper_def split: if_splits)
  from first isd obtain w0 names where
    sd: "setup_dir env dest False w = (Inr (), w0)" and
    ls0: "os_listdir env src (fs w0) = Inr names" and
    run: "copy_entries env src dest names w0 = (Inr (), w1)"
    by (auto simp: copy_helper_def split: prod.splits sum.splits)
  have SD: "node_at (fs w) S = Some Dir" using isd S by (simp add: os_path_isdir_def lookup_def)
  note sdl = setup_dir_dest [OF wf D dj(1) sd]
  have neq: "S \<noteq> D" using dj by auto
  have SD0: "node_at (fs w0) S = Some Dir" using sdl(2) neq SD by simp
  have names: "names = children (fs w) S"
    using ls0 S SD0 sdl(3) by (simp add: os_listdir_def)
  have lsw: "os_listdir env src (fs w) = Inr names"
    using S SD names by (simp add: os_listdir_def)
  have dist: "distinct names" unfolding names by (simp add: children_def)
  have pl: "\<forall>p\<in>set names. plain p" unfolding names by (rule children_plain [OF wf])
  have s0: "\<forall>p. node_at (fs w0) (S @ [p]) = node_at (fs w) (S @ [p])"
  proof
    fix p
    have "S @ [p] \<noteq> D" using dj(1) by auto
    then show "node_at (fs w0) (S @ [p]) = node_at (fs w) (S @ [p])" using sdl(2) by simp
  qed
  have d0: "\<forall>p. node_at (fs w0) (D @ [p]) = node_at (fs w) (D @ [p])"
    using sdl(2) by simp
  have ch: "children (fs w0) S = names" using sdl(3) names by simp
  show ?thesis
  proof (rule exI [of _ w0], rule exI [of _ names], intro conjI)
    show "os_listdir env src (fs w) = Inr names" by (rule lsw)
    show "distinct names" by (rule dist)
    show "\<forall>p\<in>set names. plain p" by (rule pl)
    show "copy_entries env src dest names w0 = (Inr (), w1)" by (rule run)
    show "\<forall>k. prefix k D \<longrightarrow> node_at (fs w0) k = Some Dir" by (rule sdl(1))
    show "\<forall>p. node_at (fs w0) (S @ [p]) = node_at (fs w) (S @ [p])" by (rule s0)
    show "\<forall>p. node_at (fs w0) (D @ [p]) = node_at (fs w) (D @ [p])" by (rule d0)
    show "node_at (fs w0) S = Some Dir" by (rule SD0)
    show "children (fs w0) S = names" by (rule ch)
  qed
qed

lemma copy_helper_delivers:
  assumes wf: "wf_fs (fs w)"
    and S: "resolve env src = Some S" and D: "resolve env dest = Some D"
    and dj: "\<not> prefix S D" "\<not> prefix D S"
    and first: "copy_helper env (Some src) dest w = (Inr (), w1)"
  shows "\<exists>names. os_listdir env src (fs w) = Inr names
     \<and> (\<forall>p\<in>set names. \<forall>c m.
           lookup env (fs w) (os_path_join src [p]) = Some (File c m) \<longrightarrow>
           delivered env (fs w1) dest p (File c m))
     \<and> (\<forall>p\<in>set names.
           os_path_isdir env (os_path_join src [p]) (fs w) \<longrightarrow>
           \<not> os_path_exists env (os_path_join dest [p]) (fs w)
           \<and> os_path_isdir env (os_path_join dest [p]) (fs w1))"
proof -
  from copy_helper_Inr [OF wf S D dj first] obtain w0 names where
    lsw: "os_listdir env src (fs w) = Inr names" and
    dist: "distinct names" and pl: "\<forall>p\<in>set names. plain p" and
    run: "copy_entries env src dest names w0 = (Inr (), w1)" and
    ok: "\<forall>k. prefix k D \<longrightarrow> node_at (fs w0) k = Some Dir" and
    s0: "\<forall>p. node_at (fs w0) (S @ [p]) = node_at (fs w) (S @ [p])" and
    d0: "\<forall>p. node_at (fs w0) (D @ [p]) = node_at (fs w) (D @ [p])"
    by (elim exE conjE)
  note L = copy_entries_Inr [OF S D dj dist pl ok run]
  have lk_src: "lookup env f (os_path_join src [p]) = node_at f (S @ [p])" if "p \<in> set names" for p f
    using resolve_join [OF _ S, of p] pl that by (simp add: lookup_def)
  have lk_dst: "lookup env f (os_path_join dest [p]) = node_at f (D @ [p])" if "p \<in> set names" for p f
    using resolve_join [OF _ D, of p] pl that by (simp add: lookup_def)
  have dl: "delivered env f dest p x \<longleftrightarrow>
           node_at f (D @ [p]) = Some x
           \<or> node_at f (D @ [p]) = Some Dir \<and> node_at f (D @ [p, p]) = Some x"
    if "p \<in> set names" for p f x
    using delivered_iff [OF _ D, of p] pl that by simp
  have post: "node_at (fs w) (S @ [p]) \<noteq> None
          \<and> (\<forall>c m. node_at (fs w) (S @ [p]) = Some (File c m) \<longrightarrow>
                node_at (fs w1) (D @ [p]) = Some (File c m)
                \<or> node_at (fs w1) (D @ [p]) = Some Dir
                  \<and> node_at (fs w1) (D @ [p, p]) = Some (File c m))
          \<and> (node_at (fs w) (S @ [p]) = Some Dir \<longrightarrow>
                node_at (fs w) (D @ [p]) = None \<and> node_at (fs w1) (D @ [p]) = Some Dir)"
    if "p \<in> set names" for p
    using bspec [OF L [THEN conjunct2] that] unfolding s0 [rule_format] d0 [rule_format] .
  have A: "\<forall>p\<in>set names. \<forall>c m.
           lookup env (fs w) (os_path_join src [p]) = Some (File c m) \<longrightarrow>
           delivered env (fs w1) dest p (File c m)"
  proof (intro ballI allI impI)
    fix p c m assume p: "p \<in> set names"
      and "lookup env (fs w) (os_path_join src [p]) = Some (File c m)"
    then have "node_at (fs w) (S @ [p]) = Some (File c m)" using lk_src by simp
    with post [OF p] show "delivered env (fs w1) dest p (File c m)"
      unfolding dl [OF p] by blast
  qed
  have B: "\<forall>p\<in>set names.
           os_path_isdir env (os_path_join src [p]) (fs w) \<longrightarrow>
           \<not> os_path_exists env (os_path_join dest [p]) (fs w)
           \<and> os_path_isdir env (os_path_join dest [p]) (fs w1)"
  proof (intro ballI impI)
    fix p assume p: "p \<in> set names"
      and "os_path_isdir env (os_path_join src [p]) (fs w)"
    then have "node_at (fs w) (S @ [p]) = Some Dir" using lk_src by (simp add: os_path_isdir_def)
    with post [OF p] have "node_at (fs w) (D @ [p]) = None" "node_at (fs w1) (D @ [p]) = Some Dir"
      by blast+
    then show "\<not> os_path_exists env (os_path_join dest [p]) (fs w)
           \<and> os_path_isdir env (os_path_join dest [p]) (fs w1)"
      using lk_dst [OF p] by (simp add: os_path_exists_def os_path_isdir_def)
  qed
  show ?thesis
  proof (rule exI [of _ names], intro conjI)
    show "os_listdir env src (fs w) = Inr names" by (rule lsw)
  qed (rule A B)+
qed

text \<open>
  C2, as the spec states it: for every source directory and destination, two calls with
  the same arguments succeed both times exactly when the source has no top-level
  subdirectory. In each of the three cases below the source has none. With a read-only
  file in the source the first call succeeds and delivers the file with its metadata, the
  mode included, and the second call cannot open that copy for writing. With a file where
  the destination should be, and with the source itself as destination, the first call
  fails already.
\<close>

theorem copy_helper_twice_counterexample:
  "wf_fs (fs w_sealed)
   \<and> os_listdir env_linux ''/usr/share/couchapp/sealed'' (fs w_sealed) = Inr [''LICENSE'']
   \<and> lookup env_linux (fs w_sealed) ''/usr/share/couchapp/sealed/LICENSE''
       = Some (File ''Apache-2.0'' 292)
   \<and> copy_helper env_linux (Some ''/usr/share/couchapp/sealed'') ''dst'' w_sealed = (Inr (), w_sealed1)
   \<and> lookup env_linux (fs w_sealed1) ''dst/LICENSE'' = Some (File ''Apache-2.0'' 292)
   \<and> copy_helper env_linux (Some ''/usr/share/couchapp/sealed'') ''dst'' w_sealed1
       = (Inl (IOError ''EACCES''), w_sealed1)
   \<and> os_listdir env_linux ''/usr/share/couchapp/templates/functions'' (fs w_linux)
       = Inr [''map.js'', ''reduce.js'', ''foo.js'']
   \<and> \<not> os_path_isdir env_linux ''/usr/share/couchapp/templates/functions/map.js'' (fs w_linux)
   \<and> \<not> os_path_isdir env_linux ''/usr/share/couchapp/templates/functions/reduce.js'' (fs w_linux)
   \<and> \<not> os_path_isdir env_linux ''/usr/share/couchapp/templates/functions/foo.js'' (fs w_linux)
   \<and> copy_helper env_linux (Some ''/usr/share/couchapp/templates/functions'') ''app/_id'' w_linux
       = (Inl (AppError ''app/_id: File exists''), w_linux)
   \<and> copy_helper env_linux (Some ''/usr/share/couchapp/templates/functions'')
         ''/usr/share/couchapp/templates/functions'' w_linux
       = (Inl (ShutilError ''same file''), w_linux)"
  by code_simp

text \<open>
  C2, amended. The file system is well formed, source and destination lie apart (neither
  path is inside the other), and a first \<^verbatim>\<open>copy_helper(src, dest)\<close> has succeeded. Then every
  file of the source is at the destination with the content and the metadata of the source
  (where \<^verbatim>\<open>copy2\<close> puts it: \<^verbatim>\<open>dest/p\<close>, or inside \<^verbatim>\<open>dest/p\<close> when that is a directory), and
  every top-level subdirectory of the source was absent at the destination and is a
  directory there now. A second call with the same arguments succeeds, again leaving every
  destination file equal to its source, exactly when the source has no top-level
  subdirectory and no top-level file that its own metadata protects from writing; when it
  has one, the second call fails: with the collision error \<^verbatim>\<open>EEXIST\<close> of \<^verbatim>\<open>copytree\<close>, met
  at a subdirectory, or with \<^verbatim>\<open>EACCES\<close>, met at a protected file.
\<close>

theorem copy_helper_twice:
  assumes wf: "wf_fs (fs w)"
    and S: "resolve env src = Some S" and D: "resolve env dest = Some D"
    and dj: "\<not> prefix S D" "\<not> prefix D S"
    and first: "copy_helper env (Some src) dest w = (Inr (), w1)"
  shows "\<exists>names. os_listdir env src (fs w) = Inr names
     \<and> (\<forall>p\<in>set names. \<forall>c m.
           lookup env (fs w) (os_path_join src [p]) = Some (File c m) \<longrightarrow>
           delivered env (fs w1) dest p (File c m))
     \<and> (\<forall>p\<in>set names.
           os_path_isdir env (os_path_join src [p]) (fs w) \<longrightarrow>
           \<not> os_path_exists env (os_path_join dest [p]) (fs w)
           \<and> os_path_isdir env (os_path_join dest [p]) (fs w1))
     \<and> (if \<exists>p\<in>set names. os_path_isdir env (os_path_join src [p]) (fs w)
                         \<or> write_protected env (lookup env (fs w) (os_path_join src [p]))
         then \<exists>e w2. copy_helper env (Some src) dest w1 = (Inl e, w2)
                \<and> (e = OSError ''EEXIST''
                     \<and> (\<exists>p\<in>set names. os_path_isdir env (os_path_join src [p]) (fs w))
                   \<or> e = IOError ''EACCES''
                     \<and> (\<exists>p\<in>set names.
                           write_protected env (lookup env (fs w) (os_path_join src [p]))))
         else \<exists>w2. copy_helper env (Some src) dest w1 = (Inr (), w2)
                \<and> (\<forall>p\<in>set names. \<exists>c m.
                      lookup env (fs w2) (os_path_join src [p]) = Some (File c m)
                      \<and> delivered env (fs w2) dest p (File c m)))"
proof -
  from copy_helper_Inr [OF wf S D dj first] obtain w0 names where
    lsw: "os_listdir env src (fs w) = Inr names" and
    dist: "distinct names" and pl: "\<forall>p\<in>set names. plain p" and
    run: "copy_entries env src dest names w0 = (Inr (), w1)" and
    ok: "\<forall>k. prefix k D \<longrightarrow> node_at (fs w0) k = Some Dir" and
    s0: "\<forall>p. node_at (fs w0) (S @ [p]) = node_at (fs w) (S @ [p])" and
    SD0: "node_at (fs w0) S = Some Dir" and
    ch0: "children (fs w0) S = names"
    by (elim exE conjE)
  from copy_helper_delivers [OF wf S D dj first] obtain names' where
    lsw': "os_listdir env src (fs w) = Inr names'" and
    A': "\<forall>p\<in>set names'. \<forall>c m.
           lookup env (fs w) (os_path_join src [p]) = Some (File c m) \<longrightarrow>
           delivered env (fs w1) dest p (File c m)" and
    B': "\<forall>p\<in>set names'.
           os_path_isdir env (os_path_join src [p]) (fs w) \<longrightarrow>
           \<not> os_path_exists env (os_path_join dest [p]) (fs w)
           \<and> os_path_isdir env (os_path_join dest [p]) (fs w1)"
    by (elim exE conjE)
  have nn: "names' = names" using lsw lsw' by simp
  note A = A' [unfolded nn] and B = B' [unfolded nn]
  note L = copy_entries_Inr [OF S D dj dist pl ok run]
  note T = copy_entries_twice [OF S D dj dist pl ok run]
  have lk_src: "lookup env f (os_path_join src [p]) = node_at f (S @ [p])" if "p \<in> set names" for p f
    using resolve_join [OF _ S, of p] pl that by (simp add: lookup_def)
  have dl: "delivered env f dest p x \<longleftrightarrow>
           node_at f (D @ [p]) = Some x
           \<or> node_at f (D @ [p]) = Some Dir \<and> node_at f (D @ [p, p]) = Some x"
    if "p \<in> set names" for p f x
    using delivered_iff [OF _ D, of p] pl that by simp
  from L [THEN conjunct1] obtain new where n: "fs w1 = new @ fs w0"
    and k: "\<forall>(k, n)\<in>set new. \<exists>p\<in>set names. prefix (D @ [p]) k" by (elim exE conjE)
  have fr: "node_at (fs w1) k' = node_at (fs w0) k'" if "\<not> (\<exists>p\<in>set names. prefix (D @ [p]) k')" for k'
    using node_at_frame [OF n k that] .
  have SD1: "node_at (fs w1) S = Some Dir"
  proof -
    have "\<not> (\<exists>p\<in>set names. prefix (D @ [p]) S)"
    proof
      assume "\<exists>p\<in>set names. prefix (D @ [p]) S"
      then obtain p where "prefix (D @ [p]) S" by (elim bexE)
      then show False using np_src(2) [OF dj, of p] by simp
    qed
    from fr [OF this] show ?thesis using SD0 by simp
  qed
  have DD1: "node_at (fs w1) D = Some Dir"
  proof -
    have "\<not> (\<exists>p\<in>set names. prefix (D @ [p]) D)"
    proof
      assume "\<exists>p\<in>set names. prefix (D @ [p]) D"
      then obtain p where "prefix (D @ [p]) D" by (elim bexE)
      then show False using np_above [of D D p] by simp
    qed
    from fr [OF this] show ?thesis using ok by simp
  qed
  have ch1: "children (fs w1) S = names"
  proof -
    have "\<forall>k. (\<exists>p\<in>set names. prefix (D @ [p]) k) \<longrightarrow> k = [] \<or> butlast k \<noteq> S"
    proof (intro allI impI)
      fix k assume "\<exists>p\<in>set names. prefix (D @ [p]) k"
      then obtain p where "prefix (D @ [p]) k" by (elim bexE)
      then have "prefix D (butlast k)" by (rule under_butlast)
      then have "butlast k \<noteq> S" using dj(2) by auto
      then show "k = [] \<or> butlast k \<noteq> S" by simp
    qed
    from children_frame [OF n k this] show ?thesis using ch0 by simp
  qed
  have again: "copy_helper env (Some src) dest w1 = copy_entries env src dest names w1"
    using S D SD1 DD1 ch1
    by (simp add: copy_helper_def os_path_isdir_def lookup_def setup_dir_def os_listdir_def)
  have c1: "(\<exists>p\<in>set names. os_path_isdir env (os_path_join src [p]) (fs w))
                \<longleftrightarrow> (\<exists>p\<in>set names. node_at (fs w0) (S @ [p]) = Some Dir)"
    using lk_src s0 by (simp add: os_path_isdir_def)
  have c2: "(\<exists>p\<in>set names. write_protected env (lookup env (fs w) (os_path_join src [p])))
                \<longleftrightarrow> (\<exists>p\<in>set names. write_protected env (node_at (fs w0) (S @ [p])))"
    using lk_src s0 by simp
  have c3: "(\<exists>p\<in>set names. os_path_isdir env (os_path_join src [p]) (fs w)
                         \<or> write_protected env (lookup env (fs w) (os_path_join src [p])))
                \<longleftrightarrow> (\<exists>p\<in>set names. node_at (fs w0) (S @ [p]) = Some Dir
                            \<or> write_protected env (node_at (fs w0) (S @ [p])))"
    using lk_src s0 by (simp add: os_path_isdir_def)
  have C: "if \<exists>p\<in>set names. os_path_isdir env (os_path_join src [p]) (fs w)
                         \<or> write_protected env (lookup env (fs w) (os_path_join src [p]))
         then \<exists>e w2. copy_helper env (Some src) dest w1 = (Inl e, w2)
                \<and> (e = OSError ''EEXIST''
                     \<and> (\<exists>p\<in>set names. os_path_isdir env (os_path_join src [p]) (fs w))
                   \<or> e = IOError ''EACCES''
                     \<and> (\<exists>p\<in>set names.
                           write_protected env (lookup env (fs w) (os_path_join src [p]))))
         else \<exists>w2. copy_helper env (Some src) dest w1 = (Inr (), w2)
                \<and> (\<forall>p\<in>set names. \<exists>c m.
                      lookup env (fs w2) (os_path_join src [p]) = Some (File c m)
                      \<and> delivered env (fs w2) dest p (File c m))"
  proof (cases "\<exists>p\<in>set names. node_at (fs w0) (S @ [p]) = Some Dir
                            \<or> write_protected env (node_at (fs w0) (S @ [p]))")
    case True
    with T have "\<exists>e w2. copy_entries env src dest names w1 = (Inl e, w2)
                 \<and> (e = OSError ''EEXIST'' \<and> (\<exists>p\<in>set names. node_at (fs w0) (S @ [p]) = Some Dir)
                    \<or> e = IOError ''EACCES''
                      \<and> (\<exists>p\<in>set names. write_protected env (node_at (fs w0) (S @ [p]))))"
      by simp
    then show ?thesis unfolding again c1 c2 c3 using True by simp
  next
    case False
    with T obtain w2 where r: "copy_entries env src dest names w1 = (Inr (), w2)"
      and q: "\<forall>p\<in>set names. \<exists>c m. node_at (fs w2) (S @ [p]) = Some (File c m)
                        \<and> (node_at (fs w2) (D @ [p]) = Some (File c m)
                           \<or> node_at (fs w2) (D @ [p]) = Some Dir
                             \<and> node_at (fs w2) (D @ [p, p]) = Some (File c m))" by auto
    have "\<forall>p\<in>set names. \<exists>c m.
                      lookup env (fs w2) (os_path_join src [p]) = Some (File c m)
                      \<and> delivered env (fs w2) dest p (File c m)"
    proof
      fix p assume p: "p \<in> set names"
      from bspec [OF q p] show "\<exists>c m.
                      lookup env (fs w2) (os_path_join src [p]) = Some (File c m)
                      \<and> delivered env (fs w2) dest p (File c m)"
        unfolding dl [OF p] lk_src [OF p] .
    qed
    with r have "\<exists>w2. copy_entries env src dest names w1 = (Inr (), w2)
                \<and> (\<forall>p\<in>set names. \<exists>c m.
                      lookup env (fs w2) (os_path_join src [p]) = Some (File c m)
                      \<and> delivered env (fs w2) dest p (File c m))" by blast
    then show ?thesis unfolding again c3 using False by simp
  qed
  show ?thesis
  proof (rule exI [of _ names], intro conjI)
    show "os_listdir env src (fs w) = Inr names" by (rule lsw)
  qed (rule A B C)+
qed

theorem copy_helper_twice_witness:
  "(\<exists>w2. copy_helper env_linux (Some ''/usr/share/couchapp/templates/functions'') ''dst'' w_copy1 = (Inr (), w2)
          \<and> delivered env_linux (fs w2) ''dst'' ''map.js'' (File ''function(doc) {}'' 3))
   \<and> (\<exists>w2. copy_helper env_linux (Some ''/usr/share/couchapp/templates'') ''dst'' w_copy2
               = (Inl (OSError ''EEXIST''), w2))
   \<and> (\<exists>w2. copy_helper env_linux (Some ''/usr/share/couchapp/sealed'') ''dst'' w_sealed1
               = (Inl (IOError ''EACCES''), w2))"
proof -
  have wf: "wf_fs (fs w_linux)" by code_simp
  have wfs: "wf_fs (fs w_sealed)" by code_simp
  have D: "resolve env_linux ''dst'' = Some [''home'', ''u'', ''dst'']" by code_simp
  have S1: "resolve env_linux ''/usr/share/couchapp/templates/functions''
              = Some [''usr'', ''share'', ''couchapp'', ''templates'', ''functions'']" by code_simp
  have S2: "resolve env_linux ''/usr/share/couchapp/templates''
              = Some [''usr'', ''share'', ''couchapp'', ''templates'']" by code_simp
  have S3: "resolve env_linux ''/usr/share/couchapp/sealed''
              = Some [''usr'', ''share'', ''couchapp'', ''sealed'']" by code_simp
  have dj1: "\<not> prefix [''usr'', ''share'', ''couchapp'', ''templates'', ''functions''] [''home'', ''u'', ''dst'']"
            "\<not> prefix [''home'', ''u'', ''dst''] [''usr'', ''share'', ''couchapp'', ''templates'', ''functions'']"
    by simp_all
  have dj2: "\<not> prefix [''usr'', ''share'', ''couchapp'', ''templates''] [''home'', ''u'', ''dst'']"
            "\<not> prefix [''home'', ''u'', ''dst''] [''usr'', ''share'', ''couchapp'', ''templates'']"
    by simp_all
  have dj3: "\<not> prefix [''usr'', ''share'', ''couchapp'', ''sealed''] [''home'', ''u'', ''dst'']"
            "\<not> prefix [''home'', ''u'', ''dst''] [''usr'', ''share'', ''couchapp'', ''sealed'']"
    by simp_all
  have f1: "copy_helper env_linux (Some ''/usr/share/couchapp/templates/functions'') ''dst'' w_linux
              = (Inr (), w_copy1)" by code_simp
  have f2: "copy_helper env_linux (Some ''/usr/share/couchapp/templates'') ''dst'' w_linux
              = (Inr (), w_copy2)" by code_simp
  have f3: "copy_helper env_linux (Some ''/usr/share/couchapp/sealed'') ''dst'' w_sealed
              = (Inr (), w_sealed1)" by code_simp
  have l1: "os_listdir env_linux ''/usr/share/couchapp/templates/functions'' (fs w_linux)
              = Inr [''map.js'', ''reduce.js'', ''foo.js'']" by code_simp
  have l2: "os_listdir env_linux ''/usr/share/couchapp/templates'' (fs w_linux)
              = Inr [''functions'']" by code_simp
  have l3: "os_listdir env_linux ''/usr/share/couchapp/sealed'' (fs w_sealed)
              = Inr [''LICENSE'']" by code_simp
  have nd1: "\<not> (\<exists>p\<in>set [''map.js'', ''reduce.js'', ''foo.js''].
                 os_path_isdir env_linux (os_path_join ''/usr/share/couchapp/templates/functions'' [p]) (fs w_linux)
                 \<or> write_protected env_linux
                     (lookup env_linux (fs w_linux) (os_path_join ''/usr/share/couchapp/templates/functions'' [p])))"
    by code_simp
  have d2: "\<exists>p\<in>set [''functions''].
                 os_path_isdir env_linux (os_path_join ''/usr/share/couchapp/templates'' [p]) (fs w_linux)
                 \<or> write_protected env_linux
                     (lookup env_linux (fs w_linux) (os_path_join ''/usr/share/couchapp/templates'' [p]))"
    by code_simp
  have np2: "\<not> (\<exists>p\<in>set [''functions''].
                 write_protected env_linux
                     (lookup env_linux (fs w_linux) (os_path_join ''/usr/share/couchapp/templates'' [p])))"
    by code_simp
  have d3: "\<exists>p\<in>set [''LICENSE''].
                 os_path_isdir env_linux (os_path_join ''/usr/share/couchapp/sealed'' [p]) (fs w_sealed)
                 \<or> write_protected env_linux
                     (lookup env_linux (fs w_sealed) (os_path_join ''/usr/share/couchapp/sealed'' [p]))"
    by code_simp
  have nd3: "\<not> (\<exists>p\<in>set [''LICENSE''].
                 os_path_isdir env_linux (os_path_join ''/usr/share/couchapp/sealed'' [p]) (fs w_sealed))"
    by code_simp
  from copy_helper_twice [OF wf S1 D dj1 f1] l1 nd1
  obtain w2 where r: "copy_helper env_linux (Some ''/usr/share/couchapp/templates/functions'') ''dst'' w_copy1 = (Inr (), w2)"
    and q: "\<forall>p\<in>set [''map.js'', ''reduce.js'', ''foo.js'']. \<exists>c m.
               lookup env_linux (fs w2) (os_path_join ''/usr/share/couchapp/templates/functions'' [p]) = Some (File c m)
               \<and> delivered env_linux (fs w2) ''dst'' p (File c m)"
    by auto
  have A: "\<exists>w2. copy_helper env_linux (Some ''/usr/share/couchapp/templates/functions'') ''dst'' w_copy1 = (Inr (), w2)
          \<and> delivered env_linux (fs w2) ''dst'' ''map.js'' (File ''function(doc) {}'' 3)"
  proof -
    from q obtain c m where
      a: "lookup env_linux (fs w2) (os_path_join ''/usr/share/couchapp/templates/functions'' [''map.js'']) = Some (File c m)"
      and b: "delivered env_linux (fs w2) ''dst'' ''map.js'' (File c m)" by auto
    have "w2 = snd (copy_helper env_linux (Some ''/usr/share/couchapp/templates/functions'') ''dst'' w_copy1)"
      using r by simp
    moreover have "lookup env_linux (fs (snd (copy_helper env_linux (Some ''/usr/share/couchapp/templates/functions'') ''dst'' w_copy1)))
             (os_path_join ''/usr/share/couchapp/templates/functions'' [''map.js''])
           = Some (File ''function(doc) {}'' 3)" by code_simp
    ultimately have "File c m = File ''function(doc) {}'' 3" using a by simp
    with b r show ?thesis by auto
  qed
  from copy_helper_twice [OF wf S2 D dj2 f2] l2 d2 np2
  have B: "\<exists>w2. copy_helper env_linux (Some ''/usr/share/couchapp/templates'') ''dst'' w_copy2
               = (Inl (OSError ''EEXIST''), w2)"
    by auto
  from copy_helper_twice [OF wfs S3 D dj3 f3] l3 d3 nd3
  have C: "\<exists>w2. copy_helper env_linux (Some ''/usr/share/couchapp/sealed'') ''dst'' w_sealed1
               = (Inl (IOError ''EACCES''), w2)"
    by auto
  from A B C show ?thesis by (intro conjI)
qed

subsection \<open>The subtrees that \<^verbatim>\<open>copytree\<close> copies\<close>

lemma map_of_graft:
  assumes "r \<noteq> []"
  shows "map_of (map (\<lambda>(k, n). (d @ drop (length s) k, n))
                   (filter (\<lambda>(k, n). strict_prefix s k) f)) (d @ r)
           = map_of f (s @ r)"
proof (induction f)
  case Nil
  then show ?case by simp
next
  case (Cons a f)
  obtain k n where a: "a = (k, n)" by (cases a)
  show ?case
  proof (cases "strict_prefix s k")
    case True
    then obtain t where t: "k = s @ t" by (auto simp: strict_prefix_def prefix_def)
    then show ?thesis using Cons.IH True a by simp
  next
    case False
    have "k \<noteq> s @ r"
    proof
      assume "k = s @ r"
      then have "strict_prefix s k" using assms by (simp add: strict_prefix_def)
      with False show False by simp
    qed
    then show ?thesis using Cons.IH False a by simp
  qed
qed

lemma np_apart:
  assumes "\<not> prefix S D" "\<not> prefix D S"
  shows "\<not> prefix (D @ x) (S @ y)"
proof
  assume "prefix (D @ x) (S @ y)"
  then have "prefix D (S @ y)" by (rule append_prefixD)
  moreover have "prefix S (S @ y)" by simp
  ultimately have "prefix D S \<or> prefix S D" by (rule prefix_same_cases)
  with assms show False by simp
qed

lemma copy_entry_subtree:
  assumes p: "plain p" and S: "resolve env src = Some S" and D: "resolve env dest = Some D"
    and ok: "\<forall>k. prefix k D \<longrightarrow> node_at f k = Some Dir"
    and sd: "node_at f (S @ [p]) = Some Dir"
    and st: "copy_entry env src dest p f = Inr f'"
    and x: "node_at f (S @ p # r) = Some x"
  shows "node_at f' (D @ p # r) = Some x"
proof -
  let ?g = "map (\<lambda>(k, n). ((D @ [p]) @ drop (length (S @ [p])) k, n))
                        (filter (\<lambda>(k, n). strict_prefix (S @ [p]) k) f)"
  have n: "node_at f (D @ [p]) = None" and f': "f' = ?g @ (D @ [p], Dir) # f"
    using copy_entry_dir [OF p S D sd ok] st by (auto split: if_splits)
  show ?thesis
  proof (cases "r = []")
    case True
    have "\<forall>(k, n)\<in>set ?g. strict_prefix (D @ [p]) k"
      by (auto simp: strict_prefix_def prefix_def)
    then have "node_at f' (D @ [p]) = node_at ((D @ [p], Dir) # f) (D @ [p])"
      using node_at_frame [OF f', of "strict_prefix (D @ [p])" "D @ [p]"] by simp
    then show ?thesis using True x sd by (simp add: node_at_Cons)
  next
    case False
    have "map_of ?g ((D @ [p]) @ r) = map_of f ((S @ [p]) @ r)"
      by (rule map_of_graft [OF False])
    also have "\<dots> = Some x" using x by (simp add: node_at_def)
    finally have "map_of ?g (D @ p # r) = Some x" by simp
    then show ?thesis unfolding f' by (simp add: node_at_def map_add_def)
  qed
qed

lemma copy_entries_subtree:
  assumes S: "resolve env src = Some S" and D: "resolve env dest = Some D"
    and dj: "\<not> prefix S D" "\<not> prefix D S"
  shows "distinct names \<Longrightarrow> \<forall>p\<in>set names. plain p
         \<Longrightarrow> \<forall>k. prefix k D \<longrightarrow> node_at (fs w0) k = Some Dir
         \<Longrightarrow> copy_entries env src dest names w0 = (Inr (), w1)
         \<Longrightarrow> p \<in> set names \<Longrightarrow> node_at (fs w0) (S @ [p]) = Some Dir
         \<Longrightarrow> node_at (fs w0) (S @ p # r) = Some x
         \<Longrightarrow> node_at (fs w1) (D @ p # r) = Some x"
proof (induction names arbitrary: w0)
  case Nil
  then show ?case by simp
next
  case (Cons a ps)
  have pa: "plain a" and pps: "\<forall>q\<in>set ps. plain q" using Cons.prems(2) by auto
  have dps: "distinct ps" and an: "a \<notin> set ps" using Cons.prems(1) by auto
  from Cons.prems(4) obtain f1 where st: "copy_entry env src dest a (fs w0) = Inr f1"
    and run: "copy_entries env src dest ps (w0\<lparr>fs := f1\<rparr>) = (Inr (), w1)"
    by (auto split: sum.splits)
  from copy_entry_Inr(1) [OF pa S D dj Cons.prems(3) st]
  obtain new1 where n1: "f1 = new1 @ fs w0"
    and k1: "\<forall>(k, n)\<in>set new1. prefix (D @ [a]) k" by (elim exE conjE)
  have fr1: "node_at f1 k' = node_at (fs w0) k'" if "\<not> prefix (D @ [a]) k'" for k'
    using node_at_frame [OF n1 k1 that] .
  have ok1: "\<forall>k. prefix k D \<longrightarrow> node_at (fs (w0\<lparr>fs := f1\<rparr>)) k = Some Dir"
  proof (intro allI impI)
    fix k assume k: "prefix k D"
    have "node_at f1 k = node_at (fs w0) k" by (rule fr1 [OF np_above [OF k]])
    then show "node_at (fs (w0\<lparr>fs := f1\<rparr>)) k = Some Dir" using Cons.prems(3) k by simp
  qed
  show ?case
  proof (cases "p = a")
    case True
    have c: "node_at f1 (D @ p # r) = Some x"
      using copy_entry_subtree [OF pa S D Cons.prems(3) _ st, of r x] Cons.prems(6,7) True
      by simp
    from copy_entries_Inr [OF S D dj dps pps ok1 run, THEN conjunct1]
    obtain new where n: "fs w1 = new @ fs (w0\<lparr>fs := f1\<rparr>)"
      and k: "\<forall>(k, n)\<in>set new. \<exists>q\<in>set ps. prefix (D @ [q]) k" by (elim exE conjE)
    have "\<not> (\<exists>q\<in>set ps. prefix (D @ [q]) (D @ p # r))"
    proof
      assume "\<exists>q\<in>set ps. prefix (D @ [q]) (D @ p # r)"
      then obtain q where "q \<in> set ps" "prefix (D @ [q]) (D @ p # r)" by (elim bexE)
      then have "q = p" by simp
      with \<open>q \<in> set ps\<close> an True show False by simp
    qed
    from node_at_frame [OF n k this] c show ?thesis by simp
  next
    case False
    then have pin: "p \<in> set ps" using Cons.prems(5) by simp
    have a1: "node_at (fs (w0\<lparr>fs := f1\<rparr>)) (S @ [p]) = Some Dir"
      using fr1 [OF np_apart [OF dj, of "[a]" "[p]"]] Cons.prems(6) by simp
    have a2: "node_at (fs (w0\<lparr>fs := f1\<rparr>)) (S @ p # r) = Some x"
      using fr1 [OF np_apart [OF dj, of "[a]" "p # r"]] Cons.prems(7) by simp
    show ?thesis by (rule Cons.IH [OF dps pps ok1 run pin a1 a2])
  qed
qed

lemma resolve_joins:
  "list_all plain ps \<Longrightarrow> resolve env p = Some q \<Longrightarrow> resolve env (os_path_join p ps) = Some (q @ ps)"
proof (induction ps arbitrary: p q)
  case Nil
  then show ?case by (simp add: os_path_join_def)
next
  case (Cons a ps)
  have "plain a" "list_all plain ps" using Cons.prems(1) by simp_all
  from Cons.IH [OF this(2) resolve_join [OF this(1) Cons.prems(2)]]
  show ?case by (simp add: os_path_join_def)
qed

lemma copy_helper_subtree:
  assumes wf: "wf_fs (fs w)"
    and S: "resolve env src = Some S" and D: "resolve env dest = Some D"
    and dj: "\<not> prefix S D" "\<not> prefix D S"
    and first: "copy_helper env (Some src) dest w = (Inr (), w1)"
    and pl: "list_all plain (p # ps)" and ne: "ps \<noteq> []"
    and x: "lookup env (fs w) (os_path_join src (p # ps)) = Some x"
  shows "lookup env (fs w1) (os_path_join dest (p # ps)) = Some x"
proof -
  from copy_helper_Inr [OF wf S D dj first] obtain w0 names where
    lsw: "os_listdir env src (fs w) = Inr names" and
    dist: "distinct names" and pln: "\<forall>p\<in>set names. plain p" and
    run: "copy_entries env src dest names w0 = (Inr (), w1)" and
    ok: "\<forall>k. prefix k D \<longrightarrow> node_at (fs w0) k = Some Dir" and
    SD0: "node_at (fs w0) S = Some Dir" and
    ch0: "children (fs w0) S = names"
    by (elim exE conjE)
  from first have isd: "os_path_isdir env src (fs w)"
    by (auto simp: copy_helper_def split: if_splits)
  from first isd obtain w0' where sd: "setup_dir env dest False w = (Inr (), w0')"
    and run': "copy_entries env src dest (children (fs w0') S) w0' = (Inr (), w1)"
    using S SD0
    by (auto simp: copy_helper_def os_listdir_def split: prod.splits sum.splits option.splits node.splits)
  note sdl = setup_dir_dest [OF wf D dj(1) sd]
  have xs: "node_at (fs w) (S @ p # ps) = Some x"
    using x resolve_joins [OF pl S] by (simp add: lookup_def)
  have top: "node_at (fs w) (S @ [p]) = Some Dir"
  proof -
    have a: "node_at (fs w) (S @ p # ps) \<noteq> None" using xs by simp
    have b: "prefix (S @ [p]) (S @ p # ps)" by simp
    have c: "S @ [p] \<noteq> S @ p # ps" using ne by simp
    show ?thesis by (rule wf_ancestors [OF wf a b c])
  qed
  have names: "names = children (fs w) S"
    using lsw S isd by (auto simp: os_listdir_def os_path_isdir_def lookup_def)
  have pin: "p \<in> set names" unfolding names by (rule in_children) (simp add: top)
  have eq: "node_at (fs w0') k = node_at (fs w) k" if "k \<noteq> D" for k
    using sdl(2) that by simp
  have nD: "S @ y \<noteq> D" for y using dj(1) by auto
  have ch: "children (fs w0') S = names" using sdl(3) names by simp
  have t0: "node_at (fs w0') (S @ [p]) = Some Dir" using eq [OF nD [of "[p]"]] top by simp
  have x0: "node_at (fs w0') (S @ p # ps) = Some x" using eq [OF nD [of "p # ps"]] xs by simp
  have "node_at (fs w1) (D @ p # ps) = Some x"
    by (rule copy_entries_subtree [OF S D dj dist pln sdl(1) run' [unfolded ch] pin t0 x0])
  then show ?thesis using resolve_joins [OF pl D] by (simp add: lookup_def)
qed

lemma copy_helper_top:
  assumes wf: "wf_fs (fs w)"
    and S: "resolve env src = Some S" and D: "resolve env dest = Some D"
    and dj: "\<not> prefix S D" "\<not> prefix D S"
    and first: "copy_helper env (Some src) dest w = (Inr (), w1)"
    and pl: "plain p"
    and x: "lookup env (fs w) (os_path_join src [p]) = Some x"
  shows "delivered env (fs w1) dest p x"
proof -
  from copy_helper_delivers [OF wf S D dj first] obtain names where
    lsw: "os_listdir env src (fs w) = Inr names" and
    A: "\<forall>p\<in>set names. \<forall>c m.
           lookup env (fs w) (os_path_join src [p]) = Some (File c m) \<longrightarrow>
           delivered env (fs w1) dest p (File c m)" and
    B: "\<forall>p\<in>set names.
           os_path_isdir env (os_path_join src [p]) (fs w) \<longrightarrow>
           \<not> os_path_exists env (os_path_join dest [p]) (fs w)
           \<and> os_path_isdir env (os_path_join dest [p]) (fs w1)"
    by (elim exE conjE)
  from first have isd: "os_path_isdir env src (fs w)"
    by (auto simp: copy_helper_def split: if_splits)
  have names: "names = children (fs w) S"
    using lsw S isd by (auto simp: os_listdir_def os_path_isdir_def lookup_def)
  have xs: "node_at (fs w) (S @ [p]) = Some x"
    using x resolve_join [OF pl S] by (simp add: lookup_def)
  have pin: "p \<in> set names" unfolding names by (rule in_children) (simp add: xs)
  show ?thesis
  proof (cases x)
    case (File c m)
    then show ?thesis using A pin x by blast
  next
    case Dir
    then have "os_path_isdir env (os_path_join dest [p]) (fs w1)"
      using B pin x by (simp add: os_path_isdir_def)
    then show ?thesis using Dir by (simp add: delivered_def os_path_isdir_def)
  qed
qed

lemma setup_dir_keeps:
  assumes "setup_dir env p re w = (Inr (), w')" "node_at (fs w) k = Some x"
  shows "node_at (fs w') k = Some x"
proof -
  from setup_dir_resolve [OF assms(1)] obtain q where q: "resolve env p = Some q" by (elim exE)
  from setup_dir_cases [OF assms(1) q]
  have "w' = w \<or> w' = w\<lparr>fs := (q, Dir) # fs w\<rparr> \<and> node_at (fs w) q = None" by blast
  then show ?thesis using assms(2) by (auto simp: node_at_Cons node_at_def)
qed

lemma setup_dirs_keeps:
  "setup_dirs env ps re w = (Inr (), w') \<Longrightarrow> node_at (fs w) k = Some x
   \<Longrightarrow> node_at (fs w') k = Some x"
proof (induction ps arbitrary: w)
  case Nil
  then show ?case by simp
next
  case (Cons p ps)
  from Cons.prems(1) obtain w1 where a: "setup_dir env p re w = (Inr (), w1)"
    and b: "setup_dirs env ps re w1 = (Inr (), w')"
    by (auto split: prod.splits sum.splits)
  show ?case by (rule Cons.IH [OF b setup_dir_keeps [OF a Cons.prems(2)]])
qed

lemma lookup_keeps:
  assumes "\<forall>k x. node_at f k = Some x \<longrightarrow> node_at f' k = Some x"
  shows "lookup env f p = Some x \<Longrightarrow> lookup env f' p = Some x"
  using assms by (auto simp: lookup_def split: option.splits)

lemma delivered_keeps:
  assumes "\<forall>k x. node_at f k = Some x \<longrightarrow> node_at f' k = Some x"
    and "delivered env f dest p x"
  shows "delivered env f' dest p x"
  using assms(2) lookup_keeps [OF assms(1)]
  unfolding delivered_def os_path_isdir_def by blast

section \<open>Initialising from a template without vendor\<close>

text \<open>
  C10. The template name is not reserved, the \<^verbatim>\<open>app\<close> payload was found and copied and the
  standard tree set up; no root provides \<^verbatim>\<open>vendor\<close>, neither for the requested set nor
  for the default set, at the moment \<^verbatim>\<open>init_template\<close> looks for it. Then neither lookup
  raises: the first returns \<^verbatim>\<open>None\<close>, the fallback is logged, the second returns \<^verbatim>\<open>None\<close>
  too, and \<^verbatim>\<open>copy_helper\<close> is called with \<^verbatim>\<open>None\<close> as source. The call ends with the
  \<^verbatim>\<open>TypeError\<close> of \<^verbatim>\<open>os.path.isdir(None)\<close>, not with a template-not-found error, and the
  file system is left as the app phase made it, standard directories included. The payload
  is in it: in a well-formed file system, with the template directory and the app path
  apart, every entry of the template directory is at the app path where \<^verbatim>\<open>copy_helper\<close>
  delivers it, and every node deeper in the template directory is at the same relative
  path below the app path.
\<close>

theorem init_template_no_vendor:
  assumes "template \<notin> Some ` set TEMPLATE_TYPES"
      and "find_template_dir env (tmpl_name_of template) ''app'' True w = (Inr src_dir, w1)"
      and "copy_helper env src_dir path w1 = (Inr (), w2)"
      and "setup_dirs env (map (\<lambda>n. os_path_join path [n]) DEFAULT_APP_TREE) False w2 = (Inr (), w3)"
      and "\<forall>root\<in>set (search_paths env).
             \<not> os_path_isdir env (probe_path root (normal_name (tmpl_name_of template)) ''vendor'') (fs w3)
             \<and> \<not> os_path_isdir env (probe_path root [] ''vendor'') (fs w3)"
  shows "\<exists>w'. init_template env path template w =
                 (Inl (TypeError ''coercing to Unicode: need string or buffer, NoneType found''), w')
              \<and> fs w' = fs w3
              \<and> (\<forall>n\<in>set DEFAULT_APP_TREE. os_path_isdir env (os_path_join path [n]) (fs w'))
              \<and> (''debug'', ''vendor not found in template set '' @ tmpl_name_of template
                     @ ''. fallback to default vendor.'') \<in> set (log w')
              \<and> (\<forall>s S D. src_dir = Some s \<and> wf_fs (fs w)
                          \<and> resolve env s = Some S \<and> resolve env path = Some D
                          \<and> \<not> prefix S D \<and> \<not> prefix D S \<longrightarrow>
                    (\<forall>p x. plain p \<and> lookup env (fs w) (os_path_join s [p]) = Some x \<longrightarrow>
                        delivered env (fs w') path p x)
                  \<and> (\<forall>p ps x. list_all plain (p # ps) \<and> ps \<noteq> []
                        \<and> lookup env (fs w) (os_path_join s (p # ps)) = Some x \<longrightarrow>
                        lookup env (fs w') (os_path_join path (p # ps)) = Some x))"
proof -
  let ?n = "tmpl_name_of template"
  have v1: "\<forall>x\<in>set (search_paths env). \<not> os_path_isdir env (probe_path x (normal_name ?n) ''vendor'') (fs w3)"
    using assms(5) by blast
  obtain w4 where f1: "find_template_dir env ?n ''vendor'' False w3 = (Inr None, w4)"
    and w4: "fs w4 = fs w3"
    using find_template_dir_vendor_none [OF v1] by blast
  let ?w4' = "logger ''debug'' (''vendor not found in template set '' @ ?n
                         @ ''. fallback to default vendor.'') w4"
  have v2: "\<forall>x\<in>set (search_paths env). \<not> os_path_isdir env (probe_path x (normal_name ''default'') ''vendor'') (fs ?w4')"
    using assms(5) w4 by (simp add: normal_name_def fs_logger)
  obtain w5 where f2: "find_template_dir env ''default'' ''vendor'' False ?w4' = (Inr None, w5)"
    and w5': "fs w5 = fs ?w4'" and l5: "set (log ?w4') \<subseteq> set (log w5)"
    using find_template_dir_vendor_none [OF v2] by blast
  have w5: "fs w5 = fs w3" using w5' w4 by (simp add: fs_logger)
  have c: "copy_helper env None (os_path_join path [''vendor'']) w5 =
             (Inl (TypeError ''coercing to Unicode: need string or buffer, NoneType found''), w5)"
    by (simp add: copy_helper_def)
  have r: "init_template env path template w =
             (Inl (TypeError ''coercing to Unicode: need string or buffer, NoneType found''), w5)"
    using assms(1-4) f1 f2 c
    by (simp add: init_template_def tmpl_name_of_def [symmetric] Let_def)
  have d: "\<forall>n\<in>set DEFAULT_APP_TREE. os_path_isdir env (os_path_join path [n]) (fs w5)"
    using setup_dirs_Inr [OF assms(4)] w5 by simp
  have l: "(''debug'', ''vendor not found in template set '' @ ?n
                     @ ''. fallback to default vendor.'') \<in> set (log w5)"
    using l5 by (auto simp: log_logger)
  have w1: "fs w1 = fs w"
    using find_template_dir_fs [of env ?n "''app''" True w] assms(2) by simp
  have keeps: "\<forall>k x. node_at (fs w2) k = Some x \<longrightarrow> node_at (fs w5) k = Some x"
    unfolding w5 using setup_dirs_keeps [OF assms(4)] by blast
  have P: "\<forall>s S D. src_dir = Some s \<and> wf_fs (fs w)
                          \<and> resolve env s = Some S \<and> resolve env path = Some D
                          \<and> \<not> prefix S D \<and> \<not> prefix D S \<longrightarrow>
                    (\<forall>p x. plain p \<and> lookup env (fs w) (os_path_join s [p]) = Some x \<longrightarrow>
                        delivered env (fs w5) path p x)
                  \<and> (\<forall>p ps x. list_all plain (p # ps) \<and> ps \<noteq> []
                        \<and> lookup env (fs w) (os_path_join s (p # ps)) = Some x \<longrightarrow>
                        lookup env (fs w5) (os_path_join path (p # ps)) = Some x)"
  proof (intro allI impI, elim conjE)
    fix s S D
    assume s: "src_dir = Some s" and wf: "wf_fs (fs w)"
      and S: "resolve env s = Some S" and D: "resolve env path = Some D"
      and dj: "\<not> prefix S D" "\<not> prefix D S"
    have wf1: "wf_fs (fs w1)" using wf w1 by simp
    have first: "copy_helper env (Some s) path w1 = (Inr (), w2)" using assms(3) s by simp
    have A: "\<forall>p x. plain p \<and> lookup env (fs w) (os_path_join s [p]) = Some x \<longrightarrow>
                        delivered env (fs w5) path p x"
    proof (intro allI impI, elim conjE)
      fix p x assume pl: "plain p" and x: "lookup env (fs w) (os_path_join s [p]) = Some x"
      have x1: "lookup env (fs w1) (os_path_join s [p]) = Some x" using x w1 by simp
      have "delivered env (fs w2) path p x"
        by (rule copy_helper_top [OF wf1 S D dj first pl x1])
      with keeps show "delivered env (fs w5) path p x" by (rule delivered_keeps)
    qed
    have B: "\<forall>p ps x. list_all plain (p # ps) \<and> ps \<noteq> []
                        \<and> lookup env (fs w) (os_path_join s (p # ps)) = Some x \<longrightarrow>
                        lookup env (fs w5) (os_path_join path (p # ps)) = Some x"
    proof (intro allI impI, elim conjE)
      fix p ps x assume pl: "list_all plain (p # ps)" and ne: "ps \<noteq> []"
        and x: "lookup env (fs w) (os_path_join s (p # ps)) = Some x"
      have x1: "lookup env (fs w1) (os_path_join s (p # ps)) = Some x" using x w1 by simp
      have "lookup env (fs w2) (os_path_join path (p # ps)) = Some x"
        by (rule copy_helper_subtree [OF wf1 S D dj first pl ne x1])
      with keeps show "lookup env (fs w5) (os_path_join path (p # ps)) = Some x"
        by (rule lookup_keeps)
    qed
    from A B show "(\<forall>p x. plain p \<and> lookup env (fs w) (os_path_join s [p]) = Some x \<longrightarrow>
                        delivered env (fs w5) path p x)
                  \<and> (\<forall>p ps x. list_all plain (p # ps) \<and> ps \<noteq> []
                        \<and> lookup env (fs w) (os_path_join s (p # ps)) = Some x \<longrightarrow>
                        lookup env (fs w5) (os_path_join path (p # ps)) = Some x)"
      by (rule conjI)
  qed
  show ?thesis
  proof (rule exI [of _ w5], intro conjI)
    show "init_template env path template w =
            (Inl (TypeError ''coercing to Unicode: need string or buffer, NoneType found''), w5)"
      by (rule r)
    show "fs w5 = fs w3" by (rule w5)
    show "\<forall>n\<in>set DEFAULT_APP_TREE. os_path_isdir env (os_path_join path [n]) (fs w5)" by (rule d)
    show "(''debug'', ''vendor not found in template set '' @ tmpl_name_of template
                     @ ''. fallback to default vendor.'') \<in> set (log w5)" by (rule l)
    show "\<forall>s S D. src_dir = Some s \<and> wf_fs (fs w)
                          \<and> resolve env s = Some S \<and> resolve env path = Some D
                          \<and> \<not> prefix S D \<and> \<not> prefix D S \<longrightarrow>
                    (\<forall>p x. plain p \<and> lookup env (fs w) (os_path_join s [p]) = Some x \<longrightarrow>
                        delivered env (fs w5) path p x)
                  \<and> (\<forall>p ps x. list_all plain (p # ps) \<and> ps \<noteq> []
                        \<and> lookup env (fs w) (os_path_join s (p # ps)) = Some x \<longrightarrow>
                        lookup env (fs w5) (os_path_join path (p # ps)) = Some x)" by (rule P)
  qed
qed

theorem init_template_no_vendor_witness:
  "\<exists>w'. init_template env_linux ''proj'' (Some ''mytmpl'') w_no_vendor =
           (Inl (TypeError ''coercing to Unicode: need string or buffer, NoneType found''), w')
        \<and> fs w' = fs w_no_vendor3
        \<and> (\<forall>n\<in>set DEFAULT_APP_TREE. os_path_isdir env_linux (os_path_join ''proj'' [n]) (fs w'))
        \<and> (''debug'', ''vendor not found in template set '' @ tmpl_name_of (Some ''mytmpl'')
               @ ''. fallback to default vendor.'') \<in> set (log w')
        \<and> delivered env_linux (fs w') ''proj'' ''index.html'' (File ''<html></html>'' 2)
        \<and> delivered env_linux (fs w') ''proj'' ''lib'' Dir
        \<and> lookup env_linux (fs w') (os_path_join ''proj'' [''lib'', ''util.js''])
            = Some (File ''exports.id = 1'' 2)
        \<and> \<not> os_path_exists env_linux ''proj/index.html'' (fs w_no_vendor)
        \<and> \<not> os_path_exists env_linux ''proj/vendor'' (fs w')
        \<and> \<not> os_path_exists env_linux ''proj/_id'' (fs w')"
proof -
  have h1: "Some ''mytmpl'' \<notin> Some ` set TEMPLATE_TYPES" by (simp add: TEMPLATE_TYPES_def)
  have h2: "find_template_dir env_linux (tmpl_name_of (Some ''mytmpl'')) ''app'' True w_no_vendor =
              (Inr (Some ''/usr/share/couchapp/templates/mytmpl/app''), w_no_vendor1)"
    by code_simp
  have h3: "copy_helper env_linux (Some ''/usr/share/couchapp/templates/mytmpl/app'') ''proj'' w_no_vendor1
              = (Inr (), w_no_vendor2)"
    by code_simp
  have h4: "setup_dirs env_linux (map (\<lambda>n. os_path_join ''proj'' [n]) DEFAULT_APP_TREE) False w_no_vendor2
              = (Inr (), w_no_vendor3)"
    by code_simp
  have h5: "\<forall>root\<in>set (search_paths env_linux).
             \<not> os_path_isdir env_linux (probe_path root (normal_name (tmpl_name_of (Some ''mytmpl''))) ''vendor'') (fs w_no_vendor3)
             \<and> \<not> os_path_isdir env_linux (probe_path root [] ''vendor'') (fs w_no_vendor3)"
    by code_simp
  have wf: "wf_fs (fs w_no_vendor)" by code_simp
  have S: "resolve env_linux ''/usr/share/couchapp/templates/mytmpl/app''
             = Some [''usr'', ''share'', ''couchapp'', ''templates'', ''mytmpl'', ''app'']" by code_simp
  have D: "resolve env_linux ''proj'' = Some [''home'', ''u'', ''proj'']" by code_simp
  have dj: "\<not> prefix [''usr'', ''share'', ''couchapp'', ''templates'', ''mytmpl'', ''app''] [''home'', ''u'', ''proj'']"
           "\<not> prefix [''home'', ''u'', ''proj''] [''usr'', ''share'', ''couchapp'', ''templates'', ''mytmpl'', ''app'']"
    by simp_all
  have p1: "plain ''index.html''" by code_simp
  have p2: "plain ''lib''" by code_simp
  have p3: "list_all plain [''lib'', ''util.js'']" by code_simp
  have x1: "lookup env_linux (fs w_no_vendor)
              (os_path_join ''/usr/share/couchapp/templates/mytmpl/app'' [''index.html''])
              = Some (File ''<html></html>'' 2)" by code_simp
  have x2: "lookup env_linux (fs w_no_vendor)
              (os_path_join ''/usr/share/couchapp/templates/mytmpl/app'' [''lib'']) = Some Dir"
    by code_simp
  have x3: "lookup env_linux (fs w_no_vendor)
              (os_path_join ''/usr/share/couchapp/templates/mytmpl/app'' [''lib'', ''util.js''])
              = Some (File ''exports.id = 1'' 2)" by code_simp
  have n0: "\<not> os_path_exists env_linux ''proj/index.html'' (fs w_no_vendor)" by code_simp
  have n1: "\<not> os_path_exists env_linux ''proj/vendor'' (fs w_no_vendor3)" by code_simp
  have n2: "\<not> os_path_exists env_linux ''proj/_id'' (fs w_no_vendor3)" by code_simp
  from init_template_no_vendor [OF h1 h2 h3 h4 h5] obtain w' where
    r: "init_template env_linux ''proj'' (Some ''mytmpl'') w_no_vendor =
           (Inl (TypeError ''coercing to Unicode: need string or buffer, NoneType found''), w')"
    and e: "fs w' = fs w_no_vendor3"
    and d: "\<forall>n\<in>set DEFAULT_APP_TREE. os_path_isdir env_linux (os_path_join ''proj'' [n]) (fs w')"
    and l: "(''debug'', ''vendor not found in template set '' @ tmpl_name_of (Some ''mytmpl'')
               @ ''. fallback to default vendor.'') \<in> set (log w')"
    and P: "\<forall>s S D. Some ''/usr/share/couchapp/templates/mytmpl/app'' = Some s \<and> wf_fs (fs w_no_vendor)
                          \<and> resolve env_linux s = Some S \<and> resolve env_linux ''proj'' = Some D
                          \<and> \<not> prefix S D \<and> \<not> prefix D S \<longrightarrow>
                    (\<forall>p x. plain p \<and> lookup env_linux (fs w_no_vendor) (os_path_join s [p]) = Some x \<longrightarrow>
                        delivered env_linux (fs w') ''proj'' p x)
                  \<and> (\<forall>p ps x. list_all plain (p # ps) \<and> ps \<noteq> []
                        \<and> lookup env_linux (fs w_no_vendor) (os_path_join s (p # ps)) = Some x \<longrightarrow>
                        lookup env_linux (fs w') (os_path_join ''proj'' (p # ps)) = Some x)"
    by (elim exE conjE)
  from P [rule_format, of "''/usr/share/couchapp/templates/mytmpl/app''"
            "[''usr'', ''share'', ''couchapp'', ''templates'', ''mytmpl'', ''app'']"
            "[''home'', ''u'', ''proj'']"] wf S D dj
  have Q: "(\<forall>p x. plain p \<and> lookup env_linux (fs w_no_vendor)
                       (os_path_join ''/usr/share/couchapp/templates/mytmpl/app'' [p]) = Some x \<longrightarrow>
                        delivered env_linux (fs w') ''proj'' p x)
           \<and> (\<forall>p ps x. list_all plain (p # ps) \<and> ps \<noteq> []
                        \<and> lookup env_linux (fs w_no_vendor)
                            (os_path_join ''/usr/share/couchapp/templates/mytmpl/app'' (p # ps)) = Some x \<longrightarrow>
                        lookup env_linux (fs w') (os_path_join ''proj'' (p # ps)) = Some x)"
    by simp
  have a1: "delivered env_linux (fs w') ''proj'' ''index.html'' (File ''<html></html>'' 2)"
    using Q [THEN conjunct1, rule_format, of "''index.html''"] p1 x1 by simp
  have a2: "delivered env_linux (fs w') ''proj'' ''lib'' Dir"
    using Q [THEN conjunct1, rule_format, of "''lib''"] p2 x2 by simp
  have a3: "lookup env_linux (fs w') (os_path_join ''proj'' [''lib'', ''util.js''])
            = Some (File ''exports.id = 1'' 2)"
    using Q [THEN conjunct2, rule_format, of "''lib''" "[''util.js'']"] p3 x3 by simp
  show ?thesis
  proof (rule exI [of _ w'], intro conjI)
    show "init_template env_linux ''proj'' (Some ''mytmpl'') w_no_vendor =
           (Inl (TypeError ''coercing to Unicode: need string or buffer, NoneType found''), w')"
      by (rule r)
    show "fs w' = fs w_no_vendor3" by (rule e)
    show "\<forall>n\<in>set DEFAULT_APP_TREE. os_path_isdir env_linux (os_path_join ''proj'' [n]) (fs w')"
      by (rule d)
    show "(''debug'', ''vendor not found in template set '' @ tmpl_name_of (Some ''mytmpl'')
               @ ''. fallback to default vendor.'') \<in> set (log w')" by (rule l)
    show "delivered env_linux (fs w') ''proj'' ''index.html'' (File ''<html></html>'' 2)" by (rule a1)
    show "delivered env_linux (fs w') ''proj'' ''lib'' Dir" by (rule a2)
    show "lookup env_linux (fs w') (os_path_join ''proj'' [''lib'', ''util.js''])
            = Some (File ''exports.id = 1'' 2)" by (rule a3)
    show "\<not> os_path_exists env_linux ''proj/index.html'' (fs w_no_vendor)" by (rule n0)
    show "\<not> os_path_exists env_linux ''proj/vendor'' (fs w')" unfolding e by (rule n1)
    show "\<not> os_path_exists env_linux ''proj/_id'' (fs w')" unfolding e by (rule n2)
  qed
qed

end
